theory Spec2Isabelle
  imports Complex_Main "HOL-Library.Word"
begin

section \<open>Double-precision arithmetic\<close>

text \<open>
  A JavaScript number is an IEEE 754 double, and each arithmetic operation returns the
  exact result rounded to the nearest double, ties to the even significand. The model keeps
  numbers as reals and applies the rounding \<open>rnd\<close> after every operation. Results beyond
  the largest double (where the code gets \<open>Infinity\<close>) and \<open>NaN\<close> are outside the model.
\<close>

text \<open>The nearest integer, ties to even.\<close>

definition rne :: "real \<Rightarrow> int" where
  "rne y =
     (let n = \<lfloor>y\<rfloor>; f = y - of_int n
      in if f < 1 / 2 then n else if 1 / 2 < f then n + 1 else if even n then n else n + 1)"

text \<open>The nearest multiple of \<open>2^e\<close>, ties to the even multiple.\<close>

definition grid :: "int \<Rightarrow> real \<Rightarrow> real" where
  "grid e x = of_int (rne (x / 2 powi e)) * 2 powi e"

text \<open>
  The exponent of the binade of \<open>x\<close>, at least \<open>-1022\<close>: below \<open>2^-1022\<close> the doubles
  are subnormal and keep the spacing \<open>2^-1074\<close>.
\<close>

definition expo :: "real \<Rightarrow> int" where
  "expo x = max \<lfloor>log 2 \<bar>x\<bar>\<rfloor> (- 1022)"

text \<open>Rounding to double: 53 significant bits.\<close>

definition rnd :: "real \<Rightarrow> real" where
  "rnd x = (if x = 0 then 0 else grid (expo x - 52) x)"

text \<open>The doubles that the literals \<open>0.1\<close>, \<open>0.02\<close> and \<open>0.2\<close> of the source denote.\<close>

definition double_0_1 :: real where
  "double_0_1 = rnd (1 / 10)"

definition double_0_02 :: real where
  "double_0_02 = rnd (1 / 50)"

definition double_0_2 :: real where
  "double_0_2 = rnd (1 / 5)"

section \<open>The particle system of \<open>assets/js/main.js\<close>\<close>

text \<open>
  A call of \<open>Math.random()\<close> is an explicit argument: the record \<open>rand\<close> holds the eight
  draws one constructor call of \<open>Particle\<close> can make, each in \<open>[0, 1)\<close>.
\<close>

subsection \<open>Configuration (the constant \<open>config\<close>)\<close>

definition config_count :: nat where
  "config_count = 80"

definition config_size :: real where
  "config_size = 2"

definition config_speed :: real where
  "config_speed = 0.5"

definition config_opacity :: real where
  "config_opacity = 0.5"

definition config_connectionDistance :: real where
  "config_connectionDistance = 150"

definition config_colors :: "string list" where
  "config_colors = [''#8b5cf6'', ''#3b82f6'', ''#ec4899'', ''#06b6d4'']"

subsection \<open>Data\<close>

text \<open>
  The two attributes of the canvas element the particle code reads; each is an
  \<open>unsigned long\<close> of the DOM. \<open>canvas_width\<close> and \<open>canvas_height\<close> are the numbers the
  code reads from them.
\<close>

record canvas =
  width :: "32 word"
  height :: "32 word"

definition canvas_width :: "canvas \<Rightarrow> real" where
  "canvas_width c = real (unat (width c))"

definition canvas_height :: "canvas \<Rightarrow> real" where
  "canvas_height c = real (unat (height c))"

text \<open>
  The fields of a \<open>Particle\<close> object: \<open>px\<close>, \<open>py\<close> are \<open>this.x\<close>, \<open>this.y\<close> and
  \<open>psize\<close> is \<open>this.size\<close>. \<open>color\<close> is \<open>None\<close> where the palette lookup yields
  \<open>undefined\<close>.
\<close>

record particle =
  px :: real
  py :: real
  vx :: real
  vy :: real
  psize :: real
  color :: "string option"
  opacity :: real
  pulse :: real
  pulseDir :: real

record rand =
  r_x :: real
  r_y :: real
  r_vx :: real
  r_vy :: real
  r_size :: real
  r_color :: real
  r_opacity :: real
  r_pulse :: real

text \<open>What \<open>Math.random()\<close> guarantees of each draw.\<close>

definition unit_draw :: "real \<Rightarrow> bool" where
  "unit_draw r = (0 \<le> r \<and> r < 1)"

definition valid_rand :: "rand \<Rightarrow> bool" where
  "valid_rand r =
     (unit_draw (r_x r) \<and> unit_draw (r_y r) \<and> unit_draw (r_vx r) \<and> unit_draw (r_vy r) \<and>
      unit_draw (r_size r) \<and> unit_draw (r_color r) \<and> unit_draw (r_opacity r) \<and>
      unit_draw (r_pulse r))"

datatype error = TypeError | SecurityError

text \<open>
  The module state: \<open>canvas_el\<close> is the variable \<open>canvas\<close>, \<open>None\<close> while it is
  \<open>undefined\<close> or \<open>null\<close>.
\<close>

record pstate =
  canvas_el :: "canvas option"
  particlesArray :: "particle list"

subsection \<open>The class \<open>Particle\<close>\<close>

text \<open>
  An argument is \<open>None\<close> when it is not passed (\<open>undefined\<close>). \<open>x || e\<close> takes \<open>e\<close>
  when \<open>x\<close> is falsy: \<open>undefined\<close> or \<open>0\<close> (\<open>NaN\<close>, falsy as well, is not among the
  reals).
\<close>

definition falsy :: "real option \<Rightarrow> bool" where
  "falsy a = (case a of None \<Rightarrow> True | Some v \<Rightarrow> v = 0)"

definition or_else :: "real option \<Rightarrow> real \<Rightarrow> real" where
  "or_else a e = (case a of None \<Rightarrow> e | Some v \<Rightarrow> if v = 0 then e else v)"

definition pick_color :: "real \<Rightarrow> string option" where
  "pick_color r =
     (let i = \<lfloor>rnd (r * real (length config_colors))\<rfloor>
      in if 0 \<le> i \<and> nat i < length config_colors then Some (config_colors ! nat i) else None)"

text \<open>
  The constructor's body, given the canvas size \<open>w\<close>, \<open>h\<close>.
\<close>

definition construct :: "real \<Rightarrow> real \<Rightarrow> real option \<Rightarrow> real option \<Rightarrow> rand \<Rightarrow> particle" where
  "construct w h x y r =
     \<lparr> px = or_else x (rnd (r_x r * w)),
       py = or_else y (rnd (r_y r * h)),
       vx = rnd (rnd (r_vx r - 0.5) * config_speed),
       vy = rnd (rnd (r_vy r - 0.5) * config_speed),
       psize = rnd (rnd (r_size r * config_size) + 1),
       color = pick_color (r_color r),
       opacity = rnd (rnd (r_opacity r * config_opacity) + double_0_1),
       pulse = rnd (r_pulse r * double_0_02),
       pulseDir = 1 \<rparr>"

text \<open>
  The constructor. \<open>canvas.width\<close> and \<open>canvas.height\<close> are read only when the
  coordinate is falsy; reading them while \<open>canvas\<close> is not set throws. With both
  coordinates truthy the canvas size is not used.
\<close>

definition Particle :: "canvas option \<Rightarrow> real option \<Rightarrow> real option \<Rightarrow> rand \<Rightarrow> error + particle" where
  "Particle cv x y r =
     (case cv of
        None \<Rightarrow> if falsy x \<or> falsy y then Inl TypeError else Inr (construct 0 0 x y r)
      | Some c \<Rightarrow> Inr (construct (canvas_width c) (canvas_height c) x y r))"

text \<open>The method \<open>update\<close>; it runs only inside \<open>animate\<close>, where the canvas is set.\<close>

definition update :: "canvas \<Rightarrow> particle \<Rightarrow> particle" where
  "update c p =
     (let x' = rnd (px p + vx p);
          y' = rnd (py p + vy p);
          o' = rnd (opacity p + rnd (pulse p * pulseDir p));
          d' = (if o' \<ge> config_opacity \<or> o' \<le> double_0_1
                then rnd (pulseDir p * (- 1)) else pulseDir p);
          vx' = (if x' < 0 \<or> x' > canvas_width c then rnd (vx p * (- 1)) else vx p);
          vy' = (if y' < 0 \<or> y' > canvas_height c then rnd (vy p * (- 1)) else vy p)
      in p \<lparr> px := x', py := y', opacity := o', pulseDir := d', vx := vx', vy := vy' \<rparr>)"

subsection \<open>\<open>initCanvas\<close> and \<open>addParticle\<close>\<close>

text \<open>
  \<open>initCanvas\<close>: \<open>el\<close> tells whether \<open>document.getElementById\<close> finds the canvas;
  \<open>resizeCanvas\<close> gives the canvas the window's inner size \<open>w\<close>, \<open>h\<close>; \<open>rs i\<close> holds the
  draws of the \<open>i\<close>-th constructor call.
\<close>

definition initCanvas :: "bool \<Rightarrow> 32 word \<Rightarrow> 32 word \<Rightarrow> (nat \<Rightarrow> rand) \<Rightarrow> pstate \<Rightarrow> pstate" where
  "initCanvas el w h rs s =
     (if \<not> el then s \<lparr> canvas_el := None \<rparr>
      else let c = \<lparr> width = w, height = h \<rparr>
           in \<lparr> canvas_el = Some c,
                particlesArray =
                  map (\<lambda>i. construct (canvas_width c) (canvas_height c) None None (rs i))
                    [0 ..< config_count] \<rparr>)"

text \<open>\<open>addParticle\<close>: \<open>push\<close>, then \<open>shift\<close> when the array is longer than twice the count.\<close>

definition addParticle :: "real option \<Rightarrow> real option \<Rightarrow> rand \<Rightarrow> pstate \<Rightarrow> error + pstate" where
  "addParticle x y r s =
     (case Particle (canvas_el s) x y r of
        Inl e \<Rightarrow> Inl e
      | Inr p \<Rightarrow>
          let ps = particlesArray s @ [p]
          in Inr (s \<lparr> particlesArray := (if length ps > config_count * 2 then tl ps else ps) \<rparr>))"

text \<open>A sequence of \<open>addParticle\<close> calls; an exception ends it.\<close>

fun addParticles :: "(real option \<times> real option \<times> rand) list \<Rightarrow> pstate \<Rightarrow> error + pstate" where
  "addParticles [] s = Inr s"
| "addParticles ((x, y, r) # cs) s =
     (case addParticle x y r s of Inl e \<Rightarrow> Inl e | Inr s' \<Rightarrow> addParticles cs s')"

subsection \<open>Drawing\<close>

text \<open>
  What a frame sends to the 2D context: \<open>ClearRect w h\<close>; \<open>Arc x y size color alpha\<close>
  for the filled disc of \<open>draw\<close>; \<open>Line x1 y1 x2 y2 alpha\<close> for a stroked path from
  \<open>moveTo (x1, y1)\<close> to \<open>lineTo (x2, y2)\<close> whose stroke style has opacity \<open>alpha\<close>.
\<close>

datatype draw_cmd =
  ClearRect real real
| Arc real real real "string option" real
| Line real real real real real

definition draw :: "particle \<Rightarrow> draw_cmd" where
  "draw p = Arc (px p) (py p) (psize p) (color p) (opacity p)"

text \<open>\<open>Math.sqrt(dx * dx + dy * dy)\<close>, as the code computes it.\<close>

definition distance :: "particle \<Rightarrow> particle \<Rightarrow> real" where
  "distance p q =
     (let dx = rnd (px p - px q); dy = rnd (py p - py q)
      in rnd (sqrt (rnd (rnd (dx * dx) + rnd (dy * dy)))))"

text \<open>\<open>(1 - distance / config.connectionDistance) * 0.2\<close>, as the code computes it.\<close>

definition line_opacity :: "real \<Rightarrow> real" where
  "line_opacity d = rnd (rnd (1 - rnd (d / config_connectionDistance)) * double_0_2)"

text \<open>The inner loop of \<open>drawConnections\<close>: \<open>p\<close> against the particles after it.\<close>

fun connect :: "particle \<Rightarrow> particle list \<Rightarrow> draw_cmd list" where
  "connect p [] = []"
| "connect p (q # qs) =
     (if distance p q < config_connectionDistance
      then [Line (px p) (py p) (px q) (py q) (line_opacity (distance p q))]
      else []) @ connect p qs"

fun drawConnections :: "particle list \<Rightarrow> draw_cmd list" where
  "drawConnections [] = []"
| "drawConnections (p # ps) = connect p ps @ drawConnections ps"

text \<open>One run of \<open>animate\<close>: the updated particles and what is drawn.\<close>

definition animate :: "pstate \<Rightarrow> error + (pstate \<times> draw_cmd list)" where
  "animate s =
     (case canvas_el s of
        None \<Rightarrow> Inl TypeError
      | Some c \<Rightarrow>
          let ps = map (update c) (particlesArray s)
          in Inr (s \<lparr> particlesArray := ps \<rparr>,
                  ClearRect (canvas_width c) (canvas_height c) # map draw ps @ drawConnections ps))"

section \<open>The i18n module of \<open>assets/js/main.js\<close>\<close>

subsection \<open>JavaScript values\<close>

text \<open>
  Modelled from the spec: the locale files \<open>locales/<lang>/<page>.json\<close> are not among
  the sources; by the spec's data model a bundle section is a nested mapping of string keys
  to string values. The type holds the values the resolver can meet: these strings and
  nested objects, and what the prototype chain of a plain object adds to them, since both
  \<open>k in value\<close> and \<open>value[k]\<close> also find inherited properties. \<open>JObj kvs\<close> is a plain
  object with the own properties \<open>kvs\<close> (the first entry of a key counts), \<open>JFunction n\<close> the
  built-in function that \<open>Object.prototype\<close> holds under the name \<open>n\<close>, and
  \<open>JObjectPrototype\<close> the object \<open>Object.prototype\<close> itself.
\<close>

datatype jsval =
  JUndefined
| JNull
| JStr string
| JObj "(string \<times> jsval) list"
| JFunction string
| JObjectPrototype

text \<open>The property names of \<open>Object.prototype\<close> (ECMAScript, with its Annex B).\<close>

definition object_prototype_names :: "string list" where
  "object_prototype_names =
     [''constructor'', ''hasOwnProperty'', ''isPrototypeOf'', ''propertyIsEnumerable'',
      ''toLocaleString'', ''toString'', ''valueOf'', ''__proto__'',
      ''__defineGetter__'', ''__defineSetter__'', ''__lookupGetter__'', ''__lookupSetter__'']"

definition truthy :: "jsval \<Rightarrow> bool" where
  "truthy v = (case v of JUndefined \<Rightarrow> False | JNull \<Rightarrow> False | JStr s \<Rightarrow> s \<noteq> [] | _ \<Rightarrow> True)"

text \<open>\<open>typeof v === 'object'\<close>; it holds of \<open>null\<close> and not of functions.\<close>

definition typeof_object :: "jsval \<Rightarrow> bool" where
  "typeof_object v = (case v of JNull \<Rightarrow> True | JObj kvs \<Rightarrow> True | JObjectPrototype \<Rightarrow> True | _ \<Rightarrow> False)"

text \<open>Reading the property \<open>k\<close> of \<open>Object.prototype\<close>; its \<open>__proto__\<close> is \<open>null\<close>.\<close>

definition proto_get :: "string \<Rightarrow> jsval" where
  "proto_get k =
     (if k = ''__proto__'' then JNull
      else if k \<in> set object_prototype_names then JFunction k else JUndefined)"

text \<open>
  Reading the property \<open>k\<close> of a plain object: an own property first, then the inherited
  ones; the inherited accessor \<open>__proto__\<close> yields the prototype.
\<close>

definition plain_get :: "(string \<times> jsval) list \<Rightarrow> string \<Rightarrow> jsval" where
  "plain_get kvs k =
     (case map_of kvs k of
        Some v \<Rightarrow> v
      | None \<Rightarrow> if k = ''__proto__'' then JObjectPrototype else proto_get k)"

text \<open>
  \<open>value[k]\<close>. What a property of a string or of a built-in function is, is left to the
  parameter \<open>host\<close>.
\<close>

fun get_prop :: "(jsval \<Rightarrow> string \<Rightarrow> jsval) \<Rightarrow> jsval \<Rightarrow> string \<Rightarrow> jsval" where
  "get_prop host (JObj kvs) k = plain_get kvs k"
| "get_prop host JObjectPrototype k = proto_get k"
| "get_prop host v k = host v k"

text \<open>
  \<open>k in value\<close>, for the two kinds of object of the model. On any other value the operator
  throws; \<open>getNestedValue\<close> applies it only after testing that the value is an object.
\<close>

fun has_property :: "jsval \<Rightarrow> string \<Rightarrow> bool" where
  "has_property (JObj kvs) k =
     (case map_of kvs k of Some v \<Rightarrow> True | None \<Rightarrow> k \<in> set object_prototype_names)"
| "has_property JObjectPrototype k = (k \<in> set object_prototype_names)"
| "has_property v k = False"

text \<open>Assigning the own property \<open>k\<close> of a plain object.\<close>

definition plain_set :: "(string \<times> jsval) list \<Rightarrow> string \<Rightarrow> jsval \<Rightarrow> (string \<times> jsval) list" where
  "plain_set kvs k v = (k, v) # filter (\<lambda>e. fst e \<noteq> k) kvs"

subsection \<open>Strings\<close>

definition startsWith :: "string \<Rightarrow> string \<Rightarrow> bool" where
  "startsWith s p = (take (length p) s = p)"

fun str_includes :: "string \<Rightarrow> string \<Rightarrow> bool" where
  "str_includes [] p = (p = [])"
| "str_includes (c # cs) p = (startsWith (c # cs) p \<or> str_includes cs p)"

text \<open>\<open>s.split(sep)\<close> for a separator of one character.\<close>

fun str_split :: "string \<Rightarrow> char \<Rightarrow> string list" where
  "str_split [] sep = [[]]"
| "str_split (c # cs) sep =
     (if c = sep then [] # str_split cs sep
      else case str_split cs sep of
             w # ws \<Rightarrow> (c # w) # ws
           | [] \<Rightarrow> [[c]])"

subsection \<open>State, host and effects\<close>

text \<open>
  What the module does to the outside is recorded in order: a \<open>fetch\<close> of a URL, the two
  console calls, a run of \<open>updatePageTranslations\<close> (the DOM itself is not modelled; the
  entry holds the language the run reads), the \<open>languageChanged\<close> event and the class added
  to \<open>body\<close>.
\<close>

datatype effect =
  Fetch string
| ConsoleLog string
| ConsoleError
| UpdatePageTranslations string
| LanguageChanged string
| BodyClass string

text \<open>
  The module variables \<open>currentLang\<close> and \<open>translations\<close> (its own properties), the value
  stored under \<open>daoyou-lang\<close> in \<open>localStorage\<close> (\<open>None\<close> when there is none), and the
  effects so far.
\<close>

record i18n =
  currentLang :: string
  translations' :: "(string \<times> jsval) list"
  stored :: "string option"
  effects :: "effect list"

text \<open>
  The host: \<open>fetch_json url\<close> is the value \<open>fetch(url).then(r => r.json())\<close> resolves
  with, \<open>None\<close> when it rejects; \<open>localStorage_throws\<close> tells whether an access to
  \<open>localStorage\<close> throws.
\<close>

record host =
  pathname :: string
  navigator_language :: string
  localStorage_throws :: bool
  fetch_json :: "string \<Rightarrow> jsval option"
  host_get :: "jsval \<Rightarrow> string \<Rightarrow> jsval"

definition initial :: "string option \<Rightarrow> i18n" where
  "initial st = \<lparr> currentLang = ''zh'', translations' = [], stored = st, effects = [] \<rparr>"

subsection \<open>\<open>loadLanguage\<close>\<close>

definition getRootPath :: "string \<Rightarrow> string" where
  "getRootPath path = (if str_includes path ''/pages/'' then ''../'' else [])"

definition resources :: "string list" where
  "resources = [''common'', ''home'', ''features'', ''aigc'', ''community'', ''pricing'', ''about'']"

definition resource_urls :: "string \<Rightarrow> string \<Rightarrow> string list" where
  "resource_urls rootPath lang =
     map (\<lambda>n. rootPath @ ''locales/'' @ lang @ ''/'' @ n @ ''.json'') resources"

text \<open>
  \<open>loadLanguage\<close>, with the promise run to its end: the result is the value it resolves
  with. All seven fetches are started before any of them can fail. The promise never
  rejects: the \<open>catch\<close> handler returns a value. Calls are modelled one after the
  other, each promise settled before the next call starts; loads that overlap in time are
  outside the model.
\<close>

definition loadLanguage :: "host \<Rightarrow> string \<Rightarrow> i18n \<Rightarrow> jsval \<times> i18n" where
  "loadLanguage h lang s =
     (if truthy (plain_get (translations' s) lang) then (plain_get (translations' s) lang, s)
      else
        let urls = resource_urls (getRootPath (pathname h)) lang;
            s1 = s \<lparr> effects := effects s @ map Fetch urls \<rparr>
        in case those (map (fetch_json h) urls) of
             Some vs \<Rightarrow>
               let s2 = s1 \<lparr> translations' := plain_set (translations' s1) lang (JObj (zip resources vs)),
                              effects := effects s1 @ [ConsoleLog lang] \<rparr>
               in (plain_get (translations' s2) lang, s2)
           | None \<Rightarrow>
               let s2 = s1 \<lparr> effects := effects s1 @ [ConsoleError] \<rparr>
               in (if truthy (plain_get (translations' s2) (currentLang s2))
                   then plain_get (translations' s2) (currentLang s2) else JObj [],
                   s2))"

subsection \<open>\<open>t\<close> and \<open>getNestedValue\<close>\<close>

text \<open>The loop of \<open>getNestedValue\<close>.\<close>

fun walk :: "(jsval \<Rightarrow> string \<Rightarrow> jsval) \<Rightarrow> jsval \<Rightarrow> string list \<Rightarrow> jsval" where
  "walk host v [] = v"
| "walk host v (k # ks) =
     (if truthy v \<and> typeof_object v \<and> has_property v k then walk host (get_prop host v k) ks
      else JUndefined)"

definition getNestedValue :: "(jsval \<Rightarrow> string \<Rightarrow> jsval) \<Rightarrow> jsval \<Rightarrow> string list \<Rightarrow> jsval" where
  "getNestedValue host obj keys =
     (if truthy obj \<and> typeof_object obj then walk host obj keys else JUndefined)"

definition getCurrentPage :: "string \<Rightarrow> string" where
  "getCurrentPage path =
     (if str_includes path ''features'' then ''features''
      else if str_includes path ''aigc'' then ''aigc''
      else if str_includes path ''community'' then ''community''
      else if str_includes path ''pricing'' then ''pricing''
      else if str_includes path ''about'' then ''about''
      else ''home'')"

text \<open>\<open>t(key, page)\<close>; the key itself comes back as \<open>JStr key\<close>.\<close>

definition t :: "host \<Rightarrow> i18n \<Rightarrow> string \<Rightarrow> string \<Rightarrow> jsval" where
  "t h s key page =
     (let data = plain_get (translations' s) (currentLang s)
      in if \<not> truthy data then JStr key
         else
           let keys = str_split key (CHR ''.'');
               value = getNestedValue (host_get h) (get_prop (host_get h) data page) keys;
               value' = (if value = JUndefined \<and> truthy (get_prop (host_get h) data ''common'')
                         then getNestedValue (host_get h) (get_prop (host_get h) data ''common'') keys
                         else value)
           in if value' \<noteq> JUndefined then value' else JStr key)"

text \<open>\<open>t(key)\<close>: the page defaults to the one of the current URL.\<close>

definition t_default :: "host \<Rightarrow> i18n \<Rightarrow> string \<Rightarrow> jsval" where
  "t_default h s key = t h s key (getCurrentPage (pathname h))"

subsection \<open>\<open>setLanguage\<close> and \<open>init\<close>\<close>

text \<open>\<open>localStorage.setItem\<close> inside \<open>try\<close>: a throw leaves the store as it is.\<close>

definition setItem :: "host \<Rightarrow> string \<Rightarrow> i18n \<Rightarrow> i18n" where
  "setItem h lang s = (if localStorage_throws h then s else s \<lparr> stored := Some lang \<rparr>)"

text \<open>
  \<open>setLanguage\<close> in three parts: what runs before \<open>loadLanguage\<close> is called, the call,
  and the \<open>then\<close> handler, which ignores the value the load resolved with.
\<close>

definition setLanguage_begin :: "host \<Rightarrow> string \<Rightarrow> i18n \<Rightarrow> i18n" where
  "setLanguage_begin h lang s = setItem h lang (s \<lparr> currentLang := lang \<rparr>)"

definition setLanguage_then :: "string \<Rightarrow> i18n \<Rightarrow> i18n" where
  "setLanguage_then lang s =
     s \<lparr> effects := effects s @ [UpdatePageTranslations (currentLang s), LanguageChanged lang] \<rparr>"

definition setLanguage :: "host \<Rightarrow> string \<Rightarrow> i18n \<Rightarrow> i18n" where
  "setLanguage h lang s =
     (if lang = currentLang s then s
      else setLanguage_then lang (snd (loadLanguage h lang (setLanguage_begin h lang s))))"

text \<open>
  \<open>init\<close>. \<open>localStorage.getItem\<close> is called outside any \<open>try\<close>: where the access
  throws, so does \<open>init\<close>. \<open>savedLang || browserLang\<close> takes \<open>browserLang\<close> for \<open>null\<close>
  and for the empty string.
\<close>

definition init :: "host \<Rightarrow> i18n \<Rightarrow> error + i18n" where
  "init h s =
     (if localStorage_throws h then Inl SecurityError
      else
        let savedLang = stored s;
            browserLang = (if startsWith (navigator_language h) ''zh'' then ''zh'' else ''en'');
            s1 = s \<lparr> currentLang :=
                       (case savedLang of
                          None \<Rightarrow> browserLang
                        | Some v \<Rightarrow> if v = [] then browserLang else v) \<rparr>;
            s2 = snd (loadLanguage h (currentLang s1) s1)
        in Inr (s2 \<lparr> effects := effects s2 @
                       [UpdatePageTranslations (currentLang s2), BodyClass ''i18n-loaded''] \<rparr>))"




section \<open>Notions used in the statements and proofs\<close>

text \<open>
  A path of keys is present in a section when each key is an own key of the nested
  mapping reached so far; \<open>own_path\<close> gives the value at its end.
\<close>

fun own_path :: "jsval \<Rightarrow> string list \<Rightarrow> jsval option" where
  "own_path v [] = Some v"
| "own_path (JObj kvs) (k # ks) = (case map_of kvs k of None \<Rightarrow> None | Some v \<Rightarrow> own_path v ks)"
| "own_path v (k # ks) = None"

text \<open>
  None of the effects \<open>es\<close> is a fetch of a resource of the language \<open>lang\<close>, under
  either of the two root paths \<open>getRootPath\<close> can return.
\<close>

definition fetches_none :: "string \<Rightarrow> effect list \<Rightarrow> bool" where
  "fetches_none lang es =
     (\<forall>u \<in> set (resource_urls [] lang @ resource_urls ''../'' lang). Fetch u \<notin> set es)"

text \<open>
  The invariant of one axis under \<open>update\<close>, for a speed \<open>a\<close>: the coordinate \<open>x\<close> is
  inside \<open>[0, w]\<close>, or it is outside by at most one step and the velocity \<open>v\<close> points back.
\<close>

definition axis_ok :: "real \<Rightarrow> real \<Rightarrow> real \<Rightarrow> real \<Rightarrow> bool" where
  "axis_ok w a x v =
     ((v = a \<or> v = - a) \<and>
      ((0 \<le> x \<and> x \<le> w) \<or> (x < 0 \<and> v = a \<and> - a \<le> x) \<or>
       (w < x \<and> v = - a \<and> x \<le> rnd (w + a))))"

text \<open>The same for the opacity \<open>b\<close>, with direction \<open>d\<close> and step \<open>p\<close>.\<close>

definition opacity_ok :: "real \<Rightarrow> real \<Rightarrow> real \<Rightarrow> bool" where
  "opacity_ok b d p =
     ((d = 1 \<or> d = - 1) \<and>
      ((double_0_1 \<le> b \<and> b \<le> config_opacity) \<or>
       (config_opacity < b \<and> b \<le> rnd (config_opacity + p) \<and> d = - 1) \<or>
       (b < double_0_1 \<and> rnd (double_0_1 - p) \<le> b \<and> d = 1)))"



section \<open>Sample values\<close>

text \<open>Inputs at which the theorems below are evaluated.\<close>

definition rand0 :: rand where
  "rand0 = \<lparr> r_x = 1 / 4, r_y = 1 / 2, r_vx = 0, r_vy = 1 / 2, r_size = 1 / 2,
             r_color = 1 / 2, r_opacity = 15 / 16, r_pulse = 3 / 4 \<rparr>"

definition rand1 :: rand where
  "rand1 = \<lparr> r_x = 1 / 4, r_y = 1 / 2, r_vx = 3 / 4, r_vy = 1 / 4, r_size = 1 / 2,
             r_color = 1 / 4, r_opacity = 51 / 64, r_pulse = 3 / 4 \<rparr>"

definition canvas0 :: canvas where
  "canvas0 = \<lparr> width = 800, height = 600 \<rparr>"

definition part_a :: particle where
  "part_a = construct 800 600 (Some 100) (Some 100) rand1"





definition part_f :: particle where
  "part_f = construct 800 600 (Some (1 / 8)) (Some 300) rand0"

definition bundle_zh :: jsval where
  "bundle_zh =
     JObj [(''common'', JObj [(''subscribe'', JStr ''Subscribe'')]),
           (''home'', JObj [(''hero'', JObj [(''title'', JStr ''Welcome'')])]),
           (''features'', JObj []), (''aigc'', JObj []), (''community'', JObj []),
           (''pricing'', JObj []), (''about'', JObj [])]"

definition state_zh :: i18n where
  "state_zh = \<lparr> currentLang = ''zh'', translations' = [(''zh'', bundle_zh)],
                stored = Some ''zh'', effects = [] \<rparr>"

text \<open>A host whose every fetch fails, and one that serves an empty object everywhere.\<close>

definition host_down :: host where
  "host_down = \<lparr> pathname = ''/index.html'', navigator_language = ''en-US'',
                 localStorage_throws = False, fetch_json = (\<lambda>url. None),
                 host_get = (\<lambda>v k. JUndefined) \<rparr>"

definition host_up :: host where
  "host_up = \<lparr> pathname = ''/index.html'', navigator_language = ''en-US'',
               localStorage_throws = False, fetch_json = (\<lambda>url. Some (JObj [])),
               host_get = (\<lambda>v k. JUndefined) \<rparr>"

section \<open>Double-precision arithmetic: lemmas\<close>

lemma rne_cases: "rne y = \<lfloor>y\<rfloor> \<or> rne y = \<lfloor>y\<rfloor> + 1"
  by (simp add: rne_def Let_def)

lemma rne_of_int [simp]: "rne (of_int n) = n"
  by (simp add: rne_def Let_def)

lemma rne_error: "\<bar>of_int (rne y) - y\<bar> \<le> 1 / 2"
  unfolding rne_def Let_def by (auto; linarith)

lemma rne_mono: assumes "x \<le> y" shows "rne x \<le> rne y"
proof -
  have fl: "\<lfloor>x\<rfloor> \<le> \<lfloor>y\<rfloor>" using assms by (rule floor_mono)
  show ?thesis
  proof (cases "\<lfloor>x\<rfloor> = \<lfloor>y\<rfloor>")
    case True
    then have "x - of_int \<lfloor>x\<rfloor> \<le> y - of_int \<lfloor>y\<rfloor>" using assms by simp
    then show ?thesis using True unfolding rne_def Let_def by (auto; linarith)
  next
    case False
    with fl have "\<lfloor>x\<rfloor> + 1 \<le> \<lfloor>y\<rfloor>" by simp
    then show ?thesis using rne_cases [of x] rne_cases [of y] by linarith
  qed
qed

lemma rne_half_even: "even n \<Longrightarrow> rne (of_int n + 1 / 2) = n"
proof -
  have "\<lfloor>of_int n + 1 / 2 :: real\<rfloor> = n" by linarith
  then show "even n \<Longrightarrow> rne (of_int n + 1 / 2) = n" by (simp add: rne_def Let_def)
qed

lemma rne_half_odd: "odd n \<Longrightarrow> rne (of_int n + 1 / 2) = n + 1"
proof -
  have "\<lfloor>of_int n + 1 / 2 :: real\<rfloor> = n" by linarith
  then show "odd n \<Longrightarrow> rne (of_int n + 1 / 2) = n + 1" by (simp add: rne_def Let_def)
qed

lemma rne_le_even: "even n \<Longrightarrow> y \<le> of_int n + 1 / 2 \<Longrightarrow> rne y \<le> n"
  using rne_mono [of y "of_int n + 1 / 2"] by (simp add: rne_half_even)

lemma rne_ge_even: assumes "even n" "of_int n - 1 / 2 \<le> y" shows "n \<le> rne y"
proof -
  have "odd (n - 1)" using assms(1) by simp
  from rne_half_odd [OF this] have "rne (of_int n - 1 / 2) = n" by simp
  with rne_mono [OF assms(2)] show ?thesis by simp
qed

lemma rne_le_int: "y \<le> of_int n \<Longrightarrow> rne y \<le> n"
  using rne_mono [of y "of_int n"] by simp

lemma rne_ge_int: "of_int n \<le> y \<Longrightarrow> n \<le> rne y"
  using rne_mono [of "of_int n" y] by simp


lemma rne_minus: "rne (- y) = - rne y"
proof (cases "y = of_int \<lfloor>y\<rfloor>")
  case True
  then obtain n where "y = of_int n" by metis
  then show ?thesis by (simp flip: of_int_minus)
next
  case False
  then have fl: "\<lfloor>- y\<rfloor> = - \<lfloor>y\<rfloor> - 1" by (simp add: floor_minus ceiling_altdef)
  have "y - of_int \<lfloor>y\<rfloor> > 0" using False by (smt (verit) of_int_floor_le)
  then show ?thesis unfolding rne_def Let_def fl by (auto; linarith?)
qed

lemma pow2_pos [simp]: "0 < (2::real) powi e"
  by simp

lemma grid_mono: "x \<le> y \<Longrightarrow> grid e x \<le> grid e y"
  unfolding grid_def by (intro mult_right_mono) (simp_all add: rne_mono divide_right_mono)

lemma grid_minus: "grid e (- x) = - grid e x"
  by (simp add: grid_def rne_minus)

lemma grid_multiple: "grid e (of_int m * 2 powi e) = of_int m * 2 powi e"
  by (simp add: grid_def)

lemma grid_error: "\<bar>grid e x - x\<bar> \<le> 2 powi e / 2"
proof -
  have "grid e x - x = (of_int (rne (x / 2 powi e)) - x / 2 powi e) * 2 powi e"
    by (simp add: grid_def algebra_simps)
  then have "\<bar>grid e x - x\<bar> = \<bar>of_int (rne (x / 2 powi e)) - x / 2 powi e\<bar> * 2 powi e"
    by (simp add: abs_mult)
  also have "\<dots> \<le> (1 / 2) * 2 powi e"
    by (intro mult_right_mono rne_error) simp
  finally show ?thesis by simp
qed

lemma grid_le_multiple: "x \<le> of_int m * 2 powi e \<Longrightarrow> grid e x \<le> of_int m * 2 powi e"
  using grid_mono [of x "of_int m * 2 powi e" e] by (simp add: grid_multiple)

lemma grid_ge_multiple: "of_int m * 2 powi e \<le> x \<Longrightarrow> of_int m * 2 powi e \<le> grid e x"
  using grid_mono [of "of_int m * 2 powi e" x e] by (simp add: grid_multiple)

lemma expo_eq:
  assumes "2 powi k \<le> \<bar>x\<bar>" "\<bar>x\<bar> < 2 powi (k + 1)" "- 1022 \<le> k"
  shows "expo x = k"
proof -
  have pos: "0 < \<bar>x\<bar>" using assms(1) by (smt (verit) pow2_pos)
  have "2 powr (real_of_int k) \<le> \<bar>x\<bar>" "\<bar>x\<bar> < 2 powr (real_of_int (k + 1))"
    using assms powr_real_of_int' [of 2 k] powr_real_of_int' [of 2 "k + 1"] by simp_all
  then have "\<lfloor>log 2 \<bar>x\<bar>\<rfloor> = k"
    using floor_log_eq_powr_iff [of "\<bar>x\<bar>" 2 k] pos by simp
  with assms(3) show ?thesis by (simp add: expo_def)
qed

lemma expo_upper: assumes "x \<noteq> 0" shows "\<bar>x\<bar> < 2 powi (expo x + 1)"
proof -
  define j where "j = \<lfloor>log 2 \<bar>x\<bar>\<rfloor>"
  have pos: "0 < \<bar>x\<bar>" using assms by simp
  have "\<bar>x\<bar> < 2 powr (real_of_int (j + 1))"
    using floor_log_eq_powr_iff [of "\<bar>x\<bar>" 2 j] pos by (simp add: j_def)
  then have "\<bar>x\<bar> < 2 powi (j + 1)" using powr_real_of_int' [of 2 "j + 1"] by simp
  also have "(2::real) powi (j + 1) \<le> 2 powi (expo x + 1)"
    by (intro power_int_increasing) (simp_all add: expo_def j_def)
  finally show ?thesis .
qed

lemma expo_lower: assumes "x \<noteq> 0" shows "2 powi (expo x) \<le> \<bar>x\<bar> \<or> expo x = - 1022"
proof -
  define j where "j = \<lfloor>log 2 \<bar>x\<bar>\<rfloor>"
  have pos: "0 < \<bar>x\<bar>" using assms by simp
  have "2 powr (real_of_int j) \<le> \<bar>x\<bar>"
    using floor_log_eq_powr_iff [of "\<bar>x\<bar>" 2 j] pos by (simp add: j_def)
  then have "2 powi j \<le> \<bar>x\<bar>" using powr_real_of_int' [of 2 j] by simp
  then show ?thesis unfolding expo_def j_def [symmetric] by (cases "j \<le> - 1022") (auto simp: max_def)
qed

lemma expo_ge: "- 1022 \<le> expo x"
  by (simp add: expo_def)

lemma expo_minus [simp]: "expo (- x) = expo x"
  by (simp add: expo_def)

lemma rnd_0 [simp]: "rnd 0 = 0"
  by (simp add: rnd_def)

lemma rnd_minus: "rnd (- x) = - rnd x"
  by (simp add: rnd_def grid_minus)

lemma rnd_binade:
  "2 powi k \<le> \<bar>x\<bar> \<Longrightarrow> \<bar>x\<bar> < 2 powi (k + 1) \<Longrightarrow> - 1022 \<le> k \<Longrightarrow> rnd x = grid (k - 52) x"
  using expo_eq [of k x] pow2_pos [of k] by (auto simp: rnd_def simp del: pow2_pos zero_less_power_int)

lemma pow2_split: "(2::real) powi k = 2 ^ 52 * 2 powi (k - 52)"
  using power_int_add [of "2::real" 52 "k - 52"] by simp

lemma pow2_split1: "(2::real) powi (k + 1) = 2 ^ 53 * 2 powi (k - 52)"
  using power_int_add [of "2::real" 53 "k - 52"] by (simp add: add.commute)

lemma rnd_upper_pos: assumes "0 < x" shows "rnd x \<le> 2 powi (expo x + 1)"
proof -
  have "x \<le> of_int (2 ^ 53) * 2 powi (expo x - 52)"
    using expo_upper [of x] assms pow2_split1 [of "expo x"] by simp
  from grid_le_multiple [OF this] show ?thesis
    using assms pow2_split1 [of "expo x"] by (simp add: rnd_def)
qed

lemma rnd_lower_pos: assumes "0 < x" "2 powi (expo x) \<le> x" shows "2 powi (expo x) \<le> rnd x"
proof -
  have "of_int (2 ^ 52) * 2 powi (expo x - 52) \<le> x"
    using assms pow2_split [of "expo x"] by simp
  from grid_ge_multiple [OF this] show ?thesis
    using assms pow2_split [of "expo x"] by (simp add: rnd_def)
qed

lemma rnd_nonneg: assumes "0 \<le> x" shows "0 \<le> rnd x"
proof (cases "x = 0")
  case False
  have "of_int 0 * 2 powi (expo x - 52) \<le> x" using assms by simp
  from grid_ge_multiple [OF this] show ?thesis using False by (simp add: rnd_def)
qed simp

lemma rnd_mono_pos: assumes "0 < x" "x \<le> y" shows "rnd x \<le> rnd y"
proof -
  have y: "0 < y" using assms by simp
  have le: "expo x \<le> expo y"
    unfolding expo_def using assms by (intro max.mono floor_mono) (simp_all add: log_le_cancel_iff)
  show ?thesis
  proof (cases "expo x = expo y")
    case True
    then show ?thesis using assms y grid_mono [OF assms(2)] by (simp add: rnd_def)
  next
    case False
    with le have lt: "expo x + 1 \<le> expo y" by simp
    then have "expo y \<noteq> - 1022" using expo_ge [of x] by simp
    with expo_lower [of y] y have "2 powi (expo y) \<le> y" by simp
    from rnd_lower_pos [OF y this] have "2 powi (expo y) \<le> rnd y" .
    moreover have "(2::real) powi (expo x + 1) \<le> 2 powi (expo y)"
      using lt by (intro power_int_increasing) simp_all
    ultimately show ?thesis using rnd_upper_pos [OF assms(1)] by linarith
  qed
qed

lemma rnd_mono: assumes "x \<le> y" shows "rnd x \<le> rnd y"
proof -
  consider "0 < x" | "x \<le> 0" "0 \<le> y" | "y < 0" by linarith
  then show ?thesis
  proof cases
    case 1
    then show ?thesis using assms by (rule rnd_mono_pos)
  next
    case 2
    then have "rnd x \<le> 0" "0 \<le> rnd y"
      using rnd_nonneg [of "- x"] rnd_nonneg [of y] by (simp_all add: rnd_minus)
    then show ?thesis by simp
  next
    case 3
    then have "0 < - y" "- y \<le> - x" using assms by simp_all
    from rnd_mono_pos [OF this] show ?thesis by (simp add: rnd_minus)
  qed
qed

lemma real_ge_52: "2 ^ 52 \<le> m \<Longrightarrow> (2::real) ^ 52 \<le> of_int m"
proof -
  assume "2 ^ 52 \<le> m"
  then have "(of_int (2 ^ 52) :: real) \<le> of_int m" by (simp only: of_int_le_iff)
  then show ?thesis by simp
qed


lemma real_lt_53: "m < 2 ^ 53 \<Longrightarrow> of_int m + 1 \<le> (2::real) ^ 53"
proof -
  assume "m < 2 ^ 53"
  then have "m + 1 \<le> 2 ^ 53" by simp
  then have "(of_int (m + 1) :: real) \<le> of_int (2 ^ 53)" by (simp only: of_int_le_iff)
  then show ?thesis by simp
qed

lemma rnd_dyadic:
  assumes "\<bar>m\<bar> < 2 ^ 53" "- 1074 \<le> e"
  shows "rnd (of_int m * 2 powi e) = of_int m * 2 powi e"
proof (cases "m = 0")
  case True
  then show ?thesis by simp
next
  case False
  define x :: real where "x = of_int m * 2 powi e"
  define k where "k = expo x"
  have x0: "x \<noteq> 0" using False by (simp add: x_def)
  have absx: "\<bar>x\<bar> = of_int \<bar>m\<bar> * 2 powi e" by (simp add: x_def abs_mult)
  have ek: "k - 52 \<le> e"
  proof (rule ccontr)
    assume "\<not> k - 52 \<le> e"
    then have lt: "e + 53 \<le> k" by simp
    with assms(2) have "k \<noteq> - 1022" by simp
    with expo_lower [OF x0] have "2 powi k \<le> \<bar>x\<bar>" by (simp add: k_def)
    moreover have "\<bar>x\<bar> < 2 ^ 53 * 2 powi e"
      unfolding absx using assms(1) by (intro mult_strict_right_mono) (simp_all flip: of_int_less_iff [where 'a = real])
    moreover have "(2::real) ^ 53 * 2 powi e = 2 powi (e + 53)"
      using power_int_add [of "2::real" e 53] by simp
    moreover have "(2::real) powi (e + 53) \<le> 2 powi k"
      using lt by (intro power_int_increasing) simp_all
    ultimately show False by linarith
  qed
  define j where "j = nat (e - (k - 52))"
  have "(2::real) powi e = 2 powi (int j) * 2 powi (k - 52)"
    using ek power_int_add [of "2::real" "int j" "k - 52"] by (simp add: j_def)
  then have "x = of_int (m * 2 ^ j) * 2 powi (k - 52)"
    by (simp add: x_def)
  then have "grid (k - 52) x = x" using grid_multiple [of "k - 52" "m * 2 ^ j"] by simp
  then show ?thesis using x0 by (simp add: rnd_def k_def x_def)
qed

lemma rnd_int: "\<bar>m\<bar> < 2 ^ 53 \<Longrightarrow> rnd (of_int m) = of_int m"
  using rnd_dyadic [of m 0] by simp

lemma rnd_nat: "n < 2 ^ 53 \<Longrightarrow> rnd (real n) = real n"
  using rnd_int [of "int n"] by simp

lemma rnd_frac:
  assumes "\<bar>m\<bar> < 2 ^ 53" "n \<le> 1074"
  shows "rnd (of_int m / 2 ^ n) = of_int m / 2 ^ n"
proof -
  have "(2::real) powi (- int n) = 1 / 2 ^ n" by (simp add: power_int_minus_divide)
  then show ?thesis using rnd_dyadic [of m "- int n"] assms by simp
qed

lemma rnd_idem: "rnd (rnd x) = rnd x"
proof (cases "x = 0")
  case True
  then show ?thesis by simp
next
  case False
  define k where "k = expo x"
  define M where "M = rne (x / 2 powi (k - 52))"
  have r: "rnd x = of_int M * 2 powi (k - 52)"
    using False by (simp add: rnd_def grid_def k_def M_def)
  have "\<bar>x\<bar> < 2 ^ 53 * 2 powi (k - 52)"
    using expo_upper [OF False] pow2_split1 [of k] by (simp add: k_def)
  then have "\<bar>x / 2 powi (k - 52)\<bar> < of_int (2 ^ 53)"
    by (simp add: abs_divide field_simps)
  then have "x / 2 powi (k - 52) \<le> of_int (2 ^ 53)" "of_int (- (2 ^ 53)) \<le> x / 2 powi (k - 52)"
    by linarith+
  then have M: "M \<le> 2 ^ 53" "- (2 ^ 53) \<le> M"
    unfolding M_def using rne_le_int rne_ge_int by blast+
  have k: "- 1022 \<le> k" by (simp add: k_def expo_ge)
  consider "\<bar>M\<bar> < 2 ^ 53" | "M = 2 ^ 53" | "M = - (2 ^ 53)" using M by linarith
  then show ?thesis
  proof cases
    case 1
    then show ?thesis using rnd_dyadic [of M "k - 52"] k unfolding r by simp
  next
    case 2
    then have "rnd x = of_int 1 * 2 powi (k + 1)" using pow2_split1 [of k] by (simp add: r)
    then show ?thesis using rnd_dyadic [of 1 "k + 1"] k by simp
  next
    case 3
    then have "rnd x = of_int (- 1) * 2 powi (k + 1)" using pow2_split1 [of k] by (simp add: r)
    then show ?thesis using rnd_dyadic [of "- 1" "k + 1"] k by simp
  qed
qed

text \<open>A double \<open>d = m * 2^(k-52)\<close> of the binade \<open>k\<close> with even \<open>m\<close>.\<close>

lemma add_back_le:
  assumes k: "- 1022 \<le> k" and d: "d = of_int m * 2 powi (k - 52)"
    and m: "2 ^ 52 \<le> m" "m < 2 ^ 53" "even m"
    and a: "0 \<le> a" "d + a < 2 powi (k + 1)"
  shows "rnd (rnd (d + a) - a) \<le> d"
proof -
  define q :: real where "q = 2 powi (k - 52)"
  have q: "0 < q" by (simp add: q_def)
  have dq: "d = of_int m * q" by (simp add: d q_def)
  have lo: "2 powi k \<le> d"
  proof -
    have "2 ^ 52 * q \<le> of_int m * q"
      using q real_ge_52 [OF m(1)] by (intro mult_right_mono) simp_all
    then show ?thesis using pow2_split [of k] by (simp only: dq q_def)
  qed
  have hi: "d + q \<le> 2 powi (k + 1)"
  proof -
    have "(of_int m + 1) * q \<le> 2 ^ 53 * q"
      using q real_lt_53 [OF m(2)] by (intro mult_right_mono) simp_all
    then have "of_int m * q + q \<le> 2 ^ 53 * q" by (simp only: distrib_right mult_1)
    then show ?thesis using pow2_split1 [of k] by (simp only: dq q_def)
  qed
  have fixd: "rnd d = d"
    using rnd_dyadic [of m "k - 52"] m k by (simp add: d)
  have "2 powi k \<le> \<bar>d + a\<bar>" "\<bar>d + a\<bar> < 2 powi (k + 1)" using lo a pow2_pos [of k] by linarith+
  from rnd_binade [OF this k] have U: "rnd (d + a) = grid (k - 52) (d + a)" .
  have "rnd (d + a) - a \<le> d + q / 2"
    using grid_error [of "k - 52" "d + a"] unfolding U q_def [symmetric] by linarith
  show ?thesis
  proof (cases "rnd (d + a) - a \<le> d")
    case True
    from rnd_mono [OF this] show ?thesis by (simp add: fixd)
  next
    case False
    define z where "z = rnd (d + a) - a"
    have z: "d < z" "z \<le> d + q / 2"
      using False \<open>rnd (d + a) - a \<le> d + q / 2\<close> by (simp_all add: z_def)
    have "2 powi k \<le> \<bar>z\<bar>" "\<bar>z\<bar> < 2 powi (k + 1)" using z lo hi q pow2_pos [of k] by linarith+
    from rnd_binade [OF this k] have "rnd z = of_int (rne (z / q)) * q"
      by (simp add: grid_def q_def)
    moreover have "z / q \<le> of_int m + 1 / 2"
      using z(2) q by (simp add: dq field_simps)
    then have "rne (z / q) \<le> m" using m(3) by (intro rne_le_even)
    then have "of_int (rne (z / q)) * q \<le> of_int m * q"
      using q by (intro mult_right_mono) simp_all
    ultimately show ?thesis by (simp add: z_def dq)
  qed
qed

lemma sub_back_ge:
  assumes k: "- 1022 \<le> k" and d: "d = of_int m * 2 powi (k - 52)"
    and m: "2 ^ 52 \<le> m" "m < 2 ^ 53" "even m"
    and a: "0 \<le> a" "2 powi k \<le> d - a"
  shows "d \<le> rnd (rnd (d - a) + a)"
proof -
  define q :: real where "q = 2 powi (k - 52)"
  have q: "0 < q" by (simp add: q_def)
  have dq: "d = of_int m * q" by (simp add: d q_def)
  have hi: "d < 2 powi (k + 1)"
  proof -
    have "of_int m * q < 2 ^ 53 * q"
      using q real_lt_53 [OF m(2)] by (intro mult_strict_right_mono) simp_all
    then show ?thesis using pow2_split1 [of k] by (simp only: dq q_def)
  qed
  have fixd: "rnd d = d"
    using rnd_dyadic [of m "k - 52"] m k by (simp add: d)
  have "2 powi k \<le> \<bar>d - a\<bar>" "\<bar>d - a\<bar> < 2 powi (k + 1)" using hi a pow2_pos [of k] by linarith+
  from rnd_binade [OF this k] have L: "rnd (d - a) = grid (k - 52) (d - a)" .
  have ge: "d - q / 2 \<le> rnd (d - a) + a"
    using grid_error [of "k - 52" "d - a"] unfolding L q_def [symmetric] by linarith
  have Lk: "2 powi k \<le> rnd (d - a)"
  proof -
    have "of_int (2 ^ 52) * 2 powi (k - 52) \<le> d - a" using a(2) pow2_split [of k] by simp
    from grid_ge_multiple [OF this] show ?thesis using pow2_split [of k] by (simp add: L)
  qed
  show ?thesis
  proof (cases "d \<le> rnd (d - a) + a")
    case True
    from rnd_mono [OF this] show ?thesis by (simp add: fixd)
  next
    case False
    define z where "z = rnd (d - a) + a"
    have z: "z < d" "d - q / 2 \<le> z" using False ge by (simp_all add: z_def)
    have "2 powi k \<le> z" using Lk a(1) by (simp add: z_def)
    then have "2 powi k \<le> \<bar>z\<bar>" "\<bar>z\<bar> < 2 powi (k + 1)" using z hi pow2_pos [of k] by linarith+
    from rnd_binade [OF this k] have "rnd z = of_int (rne (z / q)) * q"
      by (simp add: grid_def q_def)
    moreover have "of_int m - 1 / 2 \<le> z / q"
      using z(2) q by (simp add: dq field_simps)
    then have "m \<le> rne (z / q)" using m(3) by (intro rne_ge_even)
    then have "of_int m * q \<le> of_int (rne (z / q)) * q"
      using q by (intro mult_right_mono) simp_all
    ultimately show ?thesis by (simp add: z_def dq)
  qed
qed


lemma add_back_nat:
  assumes w: "w < 2 ^ 52" and a: "0 \<le> a" "a < 1" "rnd a = a"
  shows "rnd (rnd (real w + a) - a) \<le> real w"
proof (cases "w = 0")
  case True
  then show ?thesis by (simp add: a)
next
  case False
  then have "1 \<le> w" by simp
  from ex_power_ivl1 [OF _ this, of 2] obtain n where n: "2 ^ n \<le> w" "w < 2 ^ (n + 1)" by auto
  have "(2::nat) ^ n < 2 ^ 52" using n(1) w by simp
  have n52: "n < 52"
  proof (rule ccontr)
    assume "\<not> n < 52"
    then have "(2::nat) ^ 52 \<le> 2 ^ n" by (intro power_increasing) simp_all
    with \<open>(2::nat) ^ n < 2 ^ 52\<close> show False by linarith
  qed
  define j where "j = 52 - n"
  have j: "n + j = 52" "1 \<le> j" using n52 by (simp_all add: j_def)
  define m where "m = int w * 2 ^ j"
  have p: "(2::real) powi (int n - 52) = 1 / 2 ^ j"
  proof -
    have "int n - 52 = - int j" using j by simp
    then show ?thesis by (simp add: power_int_minus_divide)
  qed
  have d: "real w = of_int m * 2 powi (int n - 52)" by (simp add: m_def p)
  have "2 ^ n * 2 ^ j \<le> w * 2 ^ j" using n(1) by simp
  then have "2 ^ 52 \<le> w * 2 ^ j" using j(1) by (simp flip: power_add)
  then have "int (2 ^ 52) \<le> int (w * 2 ^ j)" by (simp only: of_nat_le_iff)
  then have m1: "2 ^ 52 \<le> m" by (simp add: m_def)
  have w1: "w + 1 \<le> 2 ^ (n + 1)" using n(2) by simp
  then have A: "(w + 1) * 2 ^ j \<le> 2 ^ (n + 1) * 2 ^ j" by (rule mult_le_mono1)
  have "n + 1 + j = 53" using j(1) by simp
  then have B: "(2::nat) ^ (n + 1) * 2 ^ j = 2 ^ 53" by (simp only: power_add [symmetric])
  have C: "w * 2 ^ j < (w + 1) * 2 ^ j" by simp
  from A B C have "w * 2 ^ j < 2 ^ 53" by linarith
  then have "int (w * 2 ^ j) < int (2 ^ 53)" by (simp only: of_nat_less_iff)
  then have m2: "m < 2 ^ 53" by (simp add: m_def)
  have m3: "even m" using j(2) by (simp add: m_def)
  have "real (w + 1) \<le> real (2 ^ (n + 1))" using w1 by (simp only: of_nat_le_iff)
  then have "real w + 1 \<le> 2 powi (int n + 1)"
    by (simp add: power_int_add)
  then have lt: "real w + a < 2 powi (int n + 1)" using a(2) by simp
  show ?thesis
    by (rule add_back_le [OF _ d m1 m2 m3 a(1) lt]) simp
qed

lemma rne_tenth: "rne (36028797018963968 / 5) = 7205759403792794"
proof -
  have f: "\<lfloor>36028797018963968 / 5 :: real\<rfloor> = 7205759403792793" by simp
  show ?thesis unfolding rne_def Let_def f by simp
qed

lemma d0_1_value: "rnd (1 / 10) = 7205759403792794 / 2 ^ 56"
proof -
  have "2 powi (- 4) \<le> \<bar>1 / 10 :: real\<bar>" "\<bar>1 / 10 :: real\<bar> < 2 powi (- 4 + 1)" by simp_all
  from rnd_binade [OF this] have "rnd (1 / 10) = grid (- 56) (1 / 10)" by simp
  also have "\<dots> = of_int (rne (36028797018963968 / 5)) * 2 powi (- 56)"
    by (simp add: grid_def)
  also have "\<dots> = 7205759403792794 / 2 ^ 56"
    unfolding rne_tenth by simp
  finally show ?thesis .
qed

section \<open>The particle system: proofs\<close>

lemma canvas_nat:
  "\<exists>n. canvas_width c = real n \<and> n < 2 ^ 32" "\<exists>n. canvas_height c = real n \<and> n < 2 ^ 32"
proof -
  have "unat (width c) < 2 ^ LENGTH(32)" "unat (height c) < 2 ^ LENGTH(32)"
    by (rule unsigned_less)+
  then have "unat (width c) < 2 ^ 32" "unat (height c) < 2 ^ 32" by simp_all
  then show "\<exists>n. canvas_width c = real n \<and> n < 2 ^ 32" "\<exists>n. canvas_height c = real n \<and> n < 2 ^ 32"
    unfolding canvas_width_def canvas_height_def by blast+
qed

lemma canvas0_size: "canvas_width canvas0 = 800" "canvas_height canvas0 = 600"
  by (simp_all add: canvas_width_def canvas_height_def canvas0_def)

lemma draw_in_range:
  assumes "0 \<le> r" "r \<le> 1" "n < 2 ^ 32"
  shows "0 \<le> rnd (r * real n)" "rnd (r * real n) \<le> real n"
proof -
  have "0 \<le> r * real n" using assms(1) by (intro mult_nonneg_nonneg) simp_all
  then show "0 \<le> rnd (r * real n)" by (rule rnd_nonneg)
  have "n < 2 ^ 53" using assms(3) by simp
  then have fixn: "rnd (real n) = real n" by (rule rnd_nat)
  have "r * real n \<le> 1 * real n" using assms(2) by (intro mult_right_mono) simp_all
  then have "r * real n \<le> real n" by simp
  from rnd_mono [OF this] show "rnd (r * real n) \<le> real n" by (simp add: fixn)
qed

lemma draw_in_canvas:
  assumes "0 \<le> r" "r \<le> 1"
  shows "0 \<le> rnd (r * canvas_width c)" "rnd (r * canvas_width c) \<le> canvas_width c"
    "0 \<le> rnd (r * canvas_height c)" "rnd (r * canvas_height c) \<le> canvas_height c"
  using canvas_nat [of c] draw_in_range [OF assms] by auto

lemma addParticle_canvas:
  "canvas_el s = Some c \<Longrightarrow>
   addParticle x y r s =
     Inr (s \<lparr> particlesArray :=
            (if length (particlesArray s) \<ge> config_count * 2
             then tl (particlesArray s) @ [construct (canvas_width c) (canvas_height c) x y r]
             else particlesArray s @ [construct (canvas_width c) (canvas_height c) x y r]) \<rparr>)"
  by (cases "particlesArray s") (auto simp: addParticle_def Particle_def Let_def config_count_def)

lemma addParticles_bounded:
  "canvas_el s \<noteq> None \<Longrightarrow> length (particlesArray s) \<le> config_count * 2 \<Longrightarrow>
   \<exists>s'. addParticles cs s = Inr s' \<and> canvas_el s' = canvas_el s \<and>
        length (particlesArray s') \<le> config_count * 2"
proof (induction cs arbitrary: s)
  case Nil
  then show ?case by simp
next
  case (Cons a cs)
  obtain x y r where a: "a = (x, y, r)" by (cases a)
  from Cons.prems obtain c where c: "canvas_el s = Some c" by auto
  let ?s1 = "s \<lparr> particlesArray :=
            (if length (particlesArray s) \<ge> config_count * 2
             then tl (particlesArray s) @ [construct (canvas_width c) (canvas_height c) x y r]
             else particlesArray s @ [construct (canvas_width c) (canvas_height c) x y r]) \<rparr>"
  have step: "addParticle x y r s = Inr ?s1" by (rule addParticle_canvas [OF c])
  have "canvas_el ?s1 \<noteq> None" using c by simp
  moreover have "length (particlesArray ?s1) \<le> config_count * 2"
    using Cons.prems(2) by (auto simp: config_count_def)
  ultimately obtain s' where "addParticles cs ?s1 = Inr s'" "canvas_el s' = canvas_el ?s1"
    "length (particlesArray s') \<le> config_count * 2"
    using Cons.IH [of ?s1] by blast
  then show ?case using step a c by simp
qed

lemma initCanvas_ok:
  "canvas_el (initCanvas True w h rs s) = Some \<lparr> width = w, height = h \<rparr> \<and>
   length (particlesArray (initCanvas True w h rs s)) = config_count"
  by (simp add: initCanvas_def Let_def)

subsection \<open>The size of the particle array\<close>

text \<open>
  \<^bold>\<open>C5.\<close> After \<open>initCanvas\<close> has created the \<open>config.count\<close> particles, any sequence of
  \<open>addParticle\<close> calls runs without exception and leaves at most \<open>2 * config.count\<close>
  particles. A call on an array that is below the cap appends the new particle and removes
  nothing; a call on an array at the cap appends it and removes exactly the first (oldest)
  element.
\<close>

theorem addParticle_cap:
  "(\<exists>s'. addParticles cs (initCanvas True w h rs s0) = Inr s' \<and>
         length (particlesArray s') \<le> 2 * config_count) \<and>
   (canvas_el s = Some c \<longrightarrow>
      addParticle x y r s =
        Inr (s \<lparr> particlesArray :=
               (if length (particlesArray s) \<ge> 2 * config_count
                then tl (particlesArray s) @ [construct (canvas_width c) (canvas_height c) x y r]
                else particlesArray s @ [construct (canvas_width c) (canvas_height c) x y r]) \<rparr>))"
proof
  have "canvas_el (initCanvas True w h rs s0) \<noteq> None"
    and "length (particlesArray (initCanvas True w h rs s0)) \<le> config_count * 2"
    using initCanvas_ok [of w h rs s0] by simp_all
  from addParticles_bounded [OF this, of cs]
  show "\<exists>s'. addParticles cs (initCanvas True w h rs s0) = Inr s' \<and>
         length (particlesArray s') \<le> 2 * config_count"
    by (auto simp: mult.commute)
next
  show "canvas_el s = Some c \<longrightarrow>
      addParticle x y r s =
        Inr (s \<lparr> particlesArray :=
               (if length (particlesArray s) \<ge> 2 * config_count
                then tl (particlesArray s) @ [construct (canvas_width c) (canvas_height c) x y r]
                else particlesArray s @ [construct (canvas_width c) (canvas_height c) x y r]) \<rparr>)"
    using addParticle_canvas [of s c x y r] by (simp add: mult.commute)
qed

theorem addParticle_cap_witness:
  "addParticle (Some 10) (Some 20) rand1
     \<lparr> canvas_el = Some canvas0, particlesArray = replicate 160 part_a \<rparr> =
   Inr \<lparr> canvas_el = Some canvas0,
         particlesArray = replicate 159 part_a @ [construct 800 600 (Some 10) (Some 20) rand1] \<rparr>"
proof -
  have c: "canvas_el \<lparr> canvas_el = Some canvas0, particlesArray = replicate 160 part_a \<rparr> = Some canvas0"
    by simp
  show ?thesis
    using addParticle_cap [of "[]" 0 0 "\<lambda>i. rand1" "\<lparr> canvas_el = None, particlesArray = [] \<rparr>"
        "\<lparr> canvas_el = Some canvas0, particlesArray = replicate 160 part_a \<rparr>" canvas0
        "Some 10" "Some 20" rand1] c
    by (simp add: config_count_def canvas0_size)
qed

subsection \<open>Coordinates given to \<open>addParticle\<close>\<close>

text \<open>
  \<^bold>\<open>C10.\<close> With the canvas set, \<open>addParticle(x, y)\<close> appends a particle as the last element.
  When \<open>x\<close> is \<open>0\<close> (or is not given) its \<open>x\<close> coordinate is the random draw times
  \<open>canvas.width\<close>, as the multiplication of doubles gives it, a value in
  \<open>[0, canvas.width]\<close>, and not the argument; a nonzero \<open>x\<close> is taken as given. The same
  holds of \<open>y\<close> and \<open>canvas.height\<close>.
\<close>

theorem falsy_coordinate_randomised:
  assumes "canvas_el s = Some c" "valid_rand r"
  shows "\<exists>s'. addParticle x y r s = Inr s' \<and> particlesArray s' \<noteq> [] \<and>
           (x = Some 0 \<or> x = None \<longrightarrow>
              px (last (particlesArray s')) = rnd (r_x r * canvas_width c) \<and>
              0 \<le> px (last (particlesArray s')) \<and> px (last (particlesArray s')) \<le> canvas_width c) \<and>
           (\<forall>v. x = Some v \<and> v \<noteq> 0 \<longrightarrow> px (last (particlesArray s')) = v) \<and>
           (y = Some 0 \<or> y = None \<longrightarrow>
              py (last (particlesArray s')) = rnd (r_y r * canvas_height c) \<and>
              0 \<le> py (last (particlesArray s')) \<and> py (last (particlesArray s')) \<le> canvas_height c) \<and>
           (\<forall>v. y = Some v \<and> v \<noteq> 0 \<longrightarrow> py (last (particlesArray s')) = v)"
proof -
  define p where "p = construct (canvas_width c) (canvas_height c) x y r"
  define qs where "qs = (if length (particlesArray s @ [p]) > config_count * 2
                         then tl (particlesArray s @ [p]) else particlesArray s @ [p])"
  have rx: "0 \<le> r_x r" "r_x r \<le> 1" and ry: "0 \<le> r_y r" "r_y r \<le> 1"
    using assms(2) by (simp_all add: valid_rand_def unit_draw_def)
  have lastp: "last qs = p" and ne: "qs \<noteq> []"
    unfolding qs_def by (cases "particlesArray s"; simp add: config_count_def)+
  have add: "addParticle x y r s = Inr (s \<lparr> particlesArray := qs \<rparr>)"
    using assms(1) by (simp add: addParticle_def Particle_def Let_def qs_def p_def)
  note bx = draw_in_canvas [OF rx, of c]
  note by' = draw_in_canvas [OF ry, of c]
  have coords: "px p = or_else x (rnd (r_x r * canvas_width c))"
    "py p = or_else y (rnd (r_y r * canvas_height c))"
    by (simp_all add: p_def construct_def)
  have "particlesArray (s \<lparr> particlesArray := qs \<rparr>) \<noteq> [] \<and>
           (x = Some 0 \<or> x = None \<longrightarrow>
              px (last (particlesArray (s \<lparr> particlesArray := qs \<rparr>))) = rnd (r_x r * canvas_width c) \<and>
              0 \<le> px (last (particlesArray (s \<lparr> particlesArray := qs \<rparr>))) \<and>
              px (last (particlesArray (s \<lparr> particlesArray := qs \<rparr>))) \<le> canvas_width c) \<and>
           (\<forall>v. x = Some v \<and> v \<noteq> 0 \<longrightarrow> px (last (particlesArray (s \<lparr> particlesArray := qs \<rparr>))) = v) \<and>
           (y = Some 0 \<or> y = None \<longrightarrow>
              py (last (particlesArray (s \<lparr> particlesArray := qs \<rparr>))) = rnd (r_y r * canvas_height c) \<and>
              0 \<le> py (last (particlesArray (s \<lparr> particlesArray := qs \<rparr>))) \<and>
              py (last (particlesArray (s \<lparr> particlesArray := qs \<rparr>))) \<le> canvas_height c) \<and>
           (\<forall>v. y = Some v \<and> v \<noteq> 0 \<longrightarrow> py (last (particlesArray (s \<lparr> particlesArray := qs \<rparr>))) = v)"
    using bx by' by (auto simp: lastp ne coords or_else_def)
  with add show ?thesis by blast
qed

theorem falsy_coordinate_randomised_witness:
  "\<exists>s'. addParticle (Some 0) (Some 7) rand1 \<lparr> canvas_el = Some canvas0, particlesArray = [] \<rparr> = Inr s' \<and>
        px (last (particlesArray s')) = 200 \<and> py (last (particlesArray s')) = 7"
proof -
  have v: "valid_rand rand1" by (simp add: valid_rand_def unit_draw_def rand1_def)
  have c: "canvas_el \<lparr> canvas_el = Some canvas0, particlesArray = [] \<rparr> = Some canvas0" by simp
  have w: "rnd (r_x rand1 * canvas_width canvas0) = 200"
    using rnd_int [of 200] by (simp add: rand1_def canvas0_size)
  from falsy_coordinate_randomised [OF c v, of "Some 0" "Some 7"]
  obtain s' where "addParticle (Some 0) (Some 7) rand1 \<lparr> canvas_el = Some canvas0, particlesArray = [] \<rparr> = Inr s'"
    "px (last (particlesArray s')) = rnd (r_x rand1 * canvas_width canvas0)" "py (last (particlesArray s')) = 7"
    by auto
  then show ?thesis using w by auto
qed

subsection \<open>Positions under \<open>update\<close>\<close>

lemma rnd_abs: "rnd \<bar>x\<bar> = \<bar>rnd x\<bar>"
proof (cases "0 \<le> x")
  case True
  then show ?thesis using rnd_nonneg [of x] by simp
next
  case False
  then have "0 \<le> rnd (- x)" by (intro rnd_nonneg) simp
  then show ?thesis using False by (simp add: rnd_minus)
qed

lemma rnd_half [simp]: "rnd (1 / 2) = 1 / 2" "rnd (1 / 4) = 1 / 4" "rnd (1 / 8) = 1 / 8"
    "rnd 1 = 1"
  using rnd_frac [of 1 1] rnd_frac [of 1 2] rnd_frac [of 1 3] rnd_int [of 1] by simp_all

lemma rnd_neg_half [simp]: "rnd (- (1 / 2)) = - (1 / 2)" "rnd (- (1 / 4)) = - (1 / 4)"
    "rnd (- (1 / 8)) = - (1 / 8)" "rnd (- 1) = - 1"
  using rnd_minus [of "1 / 2"] rnd_minus [of "1 / 4"] rnd_minus [of "1 / 8"] rnd_minus [of 1]
  by simp_all

lemma rnd_between: "a \<le> x \<Longrightarrow> x \<le> b \<Longrightarrow> rnd a = a \<Longrightarrow> rnd b = b \<Longrightarrow> a \<le> rnd x \<and> rnd x \<le> b"
  using rnd_mono [of a x] rnd_mono [of x b] by simp

text \<open>The velocity the constructor computes from a draw.\<close>

lemma velocity_draw:
  assumes "unit_draw r"
  shows "\<bar>rnd (rnd (r - 0.5) * config_speed)\<bar> \<le> 1 / 4"
    and "rnd \<bar>rnd (rnd (r - 0.5) * config_speed)\<bar> = \<bar>rnd (rnd (r - 0.5) * config_speed)\<bar>"
proof -
  have "- (1 / 2) \<le> r - 0.5" "r - 0.5 \<le> 1 / 2" using assms by (simp_all add: unit_draw_def)
  from rnd_between [OF this] have "- (1 / 2) \<le> rnd (r - 0.5) \<and> rnd (r - 0.5) \<le> 1 / 2" by simp
  then have "- (1 / 4) \<le> rnd (r - 0.5) * config_speed" "rnd (r - 0.5) * config_speed \<le> 1 / 4"
    by (simp_all add: config_speed_def)
  from rnd_between [OF this]
  have "- (1 / 4) \<le> rnd (rnd (r - 0.5) * config_speed) \<and> rnd (rnd (r - 0.5) * config_speed) \<le> 1 / 4"
    by simp
  then show "\<bar>rnd (rnd (r - 0.5) * config_speed)\<bar> \<le> 1 / 4" by linarith
  show "rnd \<bar>rnd (rnd (r - 0.5) * config_speed)\<bar> = \<bar>rnd (rnd (r - 0.5) * config_speed)\<bar>"
    by (simp add: rnd_abs rnd_idem)
qed

lemma update_px: "px (update c p) = rnd (px p + vx p)" by (simp add: update_def Let_def)
lemma update_py: "py (update c p) = rnd (py p + vy p)" by (simp add: update_def Let_def)
lemma update_vx:
  "vx (update c p) =
     (if rnd (px p + vx p) < 0 \<or> rnd (px p + vx p) > canvas_width c then rnd (vx p * (- 1)) else vx p)"
  by (simp add: update_def Let_def)
lemma update_vy:
  "vy (update c p) =
     (if rnd (py p + vy p) < 0 \<or> rnd (py p + vy p) > canvas_height c then rnd (vy p * (- 1)) else vy p)"
  by (simp add: update_def Let_def)

lemma axis_ok_step:
  assumes n: "n < 2 ^ 32" and a: "rnd a = a" "0 \<le> a" "a < 1" and ok: "axis_ok (real n) a x v"
  shows "axis_ok (real n) a (rnd (x + v))
           (if rnd (x + v) < 0 \<or> rnd (x + v) > real n then rnd (v * (- 1)) else v)"
proof -
  define w where "w = real n"
  have w0: "0 \<le> w" by (simp add: w_def)
  have n53: "n < 2 ^ 53" and n52: "n < 2 ^ 52" using n by simp_all
  have fixw: "rnd w = w" unfolding w_def using n53 by (rule rnd_nat)
  have fixma: "rnd (- a) = - a" by (simp add: rnd_minus a(1))
  have bk: "rnd (rnd (w + a) - a) \<le> w"
    unfolding w_def by (rule add_back_nat [OF n52 a(2) a(3) a(1)])
  have flip: "rnd (v * (- 1)) = - v" if "v = a \<or> v = - a" for v
    using that a(1) fixma by auto
  from ok have v: "v = a \<or> v = - a" by (simp add: axis_ok_def)
  from ok consider (inside) "0 \<le> x" "x \<le> w"
    | (left) "x < 0" "v = a" "- a \<le> x"
    | (right) "w < x" "v = - a" "x \<le> rnd (w + a)"
    unfolding axis_ok_def w_def by blast
  then have "axis_ok w a (rnd (x + v)) (if rnd (x + v) < 0 \<or> rnd (x + v) > w then - v else v)"
  proof cases
    case inside
    from v show ?thesis
    proof
      assume va: "v = a"
      have "0 \<le> rnd (x + a)" using inside(1) a(2) by (intro rnd_nonneg) simp
      moreover have "rnd (x + a) \<le> rnd (w + a)" using inside(2) by (intro rnd_mono) simp
      ultimately show ?thesis unfolding axis_ok_def va by auto
    next
      assume va: "v = - a"
      have "- a \<le> rnd (x + - a)" using inside(1) rnd_mono [of "- a" "x + - a"] by (simp add: fixma)
      moreover have "rnd (x + - a) \<le> w" using inside(2) a(2) rnd_mono [of "x + - a" w] by (simp add: fixw)
      ultimately show ?thesis unfolding axis_ok_def va by auto
    qed
  next
    case left
    have "0 \<le> rnd (x + a)" using left(3) by (intro rnd_nonneg) simp
    moreover have "rnd (x + a) \<le> a" using left(1) rnd_mono [of "x + a" a] by (simp add: a(1))
    moreover have "a \<le> rnd (w + a)" using w0 rnd_mono [of a "w + a"] by (simp add: a(1))
    ultimately show ?thesis unfolding axis_ok_def left(2) by auto
  next
    case right
    have "rnd (x + - a) \<le> rnd (rnd (w + a) - a)" using right(3) by (intro rnd_mono) simp
    then have le: "rnd (x + - a) \<le> w" using bk by simp
    have "- a \<le> rnd (x + - a)" using right(1) w0 rnd_mono [of "- a" "x + - a"] by (simp add: fixma)
    with le show ?thesis unfolding axis_ok_def right(2) by auto
  qed
  then show ?thesis using flip [OF v] by (auto simp: w_def)
qed

lemma axis_ok_bound:
  assumes n: "n < 2 ^ 32" and a: "0 \<le> a" and ok: "axis_ok (real n) a x v"
  shows "- a \<le> x \<and> x \<le> rnd (real n + a)"
proof -
  have "n < 2 ^ 53" using n by simp
  then have "rnd (real n) = real n" by (rule rnd_nat)
  then have "real n \<le> rnd (real n + a)" using a rnd_mono [of "real n" "real n + a"] by simp
  moreover have "0 \<le> rnd (real n + a)" using a by (intro rnd_nonneg) simp
  ultimately show ?thesis using ok a unfolding axis_ok_def by auto
qed

lemma update_axes:
  assumes a: "rnd a = a" "0 \<le> a" "a < 1" and b: "rnd b = b" "0 \<le> b" "b < 1"
    and "axis_ok (canvas_width c) a (px p) (vx p)" "axis_ok (canvas_height c) b (py p) (vy p)"
  shows "axis_ok (canvas_width c) a (px (update c p)) (vx (update c p)) \<and>
         axis_ok (canvas_height c) b (py (update c p)) (vy (update c p))"
proof -
  obtain n m where n: "canvas_width c = real n" "n < 2 ^ 32"
    and m: "canvas_height c = real m" "m < 2 ^ 32"
    using canvas_nat [of c] by blast
  show ?thesis
    using axis_ok_step [OF n(2) a, of "px p" "vx p"] axis_ok_step [OF m(2) b, of "py p" "vy p"] assms(7,8)
    unfolding update_px update_py update_vx update_vy n(1) m(1) by simp
qed

lemma updates_axes:
  assumes a: "rnd a = a" "0 \<le> a" "a < 1" and b: "rnd b = b" "0 \<le> b" "b < 1"
    and "axis_ok (canvas_width c) a (px p) (vx p)" "axis_ok (canvas_height c) b (py p) (vy p)"
  shows "axis_ok (canvas_width c) a (px ((update c ^^ n) p)) (vx ((update c ^^ n) p)) \<and>
         axis_ok (canvas_height c) b (py ((update c ^^ n) p)) (vy ((update c ^^ n) p))"
proof (induction n)
  case 0
  show ?case using assms by simp
next
  case (Suc n)
  then show ?case using update_axes [OF a b, of c "(update c ^^ n) p"] by simp
qed

text \<open>
  \<^bold>\<open>C3, as amended.\<close> A created particle that starts inside \<open>[0, width] \<times> [0, height]\<close> stays,
  after any number of updates, inside
  \<open>[- |vx|, fl (width + |vx|)] \<times> [- |vy|, fl (height + |vy|)]\<close>, where \<open>fl\<close> rounds to the
  nearest double: it leaves the canvas by at most one step of its velocity, as the addition
  of doubles gives it.
\<close>

theorem position_overshoot_bounded:
  assumes r: "valid_rand r"
    and p: "p = construct (canvas_width c) (canvas_height c) x y r"
    and inside: "0 \<le> px p" "px p \<le> canvas_width c" "0 \<le> py p" "py p \<le> canvas_height c"
  shows "- \<bar>vx p\<bar> \<le> px ((update c ^^ n) p) \<and>
         px ((update c ^^ n) p) \<le> rnd (canvas_width c + \<bar>vx p\<bar>) \<and>
         - \<bar>vy p\<bar> \<le> py ((update c ^^ n) p) \<and>
         py ((update c ^^ n) p) \<le> rnd (canvas_height c + \<bar>vy p\<bar>)"
proof -
  have vx: "vx p = rnd (rnd (r_vx r - 0.5) * config_speed)"
    and vy: "vy p = rnd (rnd (r_vy r - 0.5) * config_speed)"
    by (simp_all add: p construct_def)
  have dr: "unit_draw (r_vx r)" "unit_draw (r_vy r)" using r by (simp_all add: valid_rand_def)
  have a: "rnd \<bar>vx p\<bar> = \<bar>vx p\<bar>" "0 \<le> \<bar>vx p\<bar>" "\<bar>vx p\<bar> < 1"
    using velocity_draw [OF dr(1)] unfolding vx by simp_all
  have b: "rnd \<bar>vy p\<bar> = \<bar>vy p\<bar>" "0 \<le> \<bar>vy p\<bar>" "\<bar>vy p\<bar> < 1"
    using velocity_draw [OF dr(2)] unfolding vy by simp_all
  have "axis_ok (canvas_width c) \<bar>vx p\<bar> (px p) (vx p)" "axis_ok (canvas_height c) \<bar>vy p\<bar> (py p) (vy p)"
    using inside by (auto simp: axis_ok_def)
  from updates_axes [OF a b this, of n]
  have ok: "axis_ok (canvas_width c) \<bar>vx p\<bar> (px ((update c ^^ n) p)) (vx ((update c ^^ n) p))"
    "axis_ok (canvas_height c) \<bar>vy p\<bar> (py ((update c ^^ n) p)) (vy ((update c ^^ n) p))"
    by simp_all
  obtain k m where k: "canvas_width c = real k" "k < 2 ^ 32"
    and m: "canvas_height c = real m" "m < 2 ^ 32"
    using canvas_nat [of c] by blast
  show ?thesis
    using axis_ok_bound [OF k(2) a(2)] axis_ok_bound [OF m(2) b(2)] ok unfolding k(1) m(1) by blast
qed

lemma part_f_fields: "px part_f = 1 / 8" "py part_f = 300" "vx part_f = - (1 / 4)"
  by (simp_all add: part_f_def construct_def or_else_def rand0_def config_speed_def)

theorem position_overshoot_bounded_witness:
  "- \<bar>vx part_f\<bar> \<le> px ((update canvas0 ^^ 3) part_f) \<and>
   px ((update canvas0 ^^ 3) part_f) \<le> rnd (canvas_width canvas0 + \<bar>vx part_f\<bar>)"
proof -
  have v: "valid_rand rand0" by (simp add: valid_rand_def unit_draw_def rand0_def)
  have p: "part_f = construct (canvas_width canvas0) (canvas_height canvas0) (Some (1 / 8)) (Some 300) rand0"
    by (simp add: part_f_def canvas0_size)
  have i: "0 \<le> px part_f" "px part_f \<le> canvas_width canvas0" "0 \<le> py part_f"
    "py part_f \<le> canvas_height canvas0"
    by (simp_all add: part_f_fields canvas0_size)
  from position_overshoot_bounded [OF v p i, of 3] show ?thesis by simp
qed

text \<open>
  \<^bold>\<open>C3.\<close> The position does not stay inside the canvas: \<open>update\<close> moves the particle first
  and only then reverses the velocity, without putting the particle back. The particle
  below starts inside the canvas and is left of it after one update.
\<close>

theorem position_leaves_canvas:
  "0 \<le> px part_f \<and> px part_f \<le> canvas_width canvas0 \<and>
   0 \<le> py part_f \<and> py part_f \<le> canvas_height canvas0 \<and>
   px (update canvas0 part_f) < 0"
  by (simp add: update_px part_f_fields canvas0_size)

subsection \<open>Opacity under \<open>update\<close>\<close>

lemma double_0_1_value: "double_0_1 = 7205759403792794 / 2 ^ 56"
  unfolding double_0_1_def by (rule d0_1_value)

lemma double_0_1_bounds: "3 / 32 \<le> double_0_1" "double_0_1 \<le> 13 / 128" "rnd double_0_1 = double_0_1"
proof -
  show "3 / 32 \<le> double_0_1" "double_0_1 \<le> 13 / 128" by (simp_all add: double_0_1_value)
  show "rnd double_0_1 = double_0_1" by (simp add: double_0_1_def rnd_idem)
qed

lemma double_0_02_bounds: "1 / 64 \<le> double_0_02" "double_0_02 \<le> 1 / 32" "rnd double_0_02 = double_0_02"
proof -
  have "rnd (1 / 64) \<le> rnd (1 / 50)" "rnd (1 / 50) \<le> rnd (1 / 32)" by (intro rnd_mono; simp)+
  then show "1 / 64 \<le> double_0_02" "double_0_02 \<le> 1 / 32"
    using rnd_frac [of 1 6] rnd_frac [of 1 5] by (simp_all add: double_0_02_def)
  show "rnd double_0_02 = double_0_02" by (simp add: double_0_02_def rnd_idem)
qed

text \<open>The opacity step the constructor computes from a draw.\<close>

lemma pulse_draw:
  assumes "unit_draw r"
  shows "0 \<le> rnd (r * double_0_02)" "rnd (r * double_0_02) \<le> 1 / 32"
    "rnd (rnd (r * double_0_02)) = rnd (r * double_0_02)"
proof -
  have r: "0 \<le> r" "r \<le> 1" using assms by (simp_all add: unit_draw_def)
  have "0 \<le> r * double_0_02" using r(1) double_0_02_bounds(1) by (intro mult_nonneg_nonneg) simp_all
  then show "0 \<le> rnd (r * double_0_02)" by (rule rnd_nonneg)
  have "r * double_0_02 \<le> 1 * double_0_02"
    using r(2) double_0_02_bounds(1) by (intro mult_right_mono) simp_all
  then have "rnd (r * double_0_02) \<le> rnd double_0_02" by (intro rnd_mono) simp
  then show "rnd (r * double_0_02) \<le> 1 / 32" using double_0_02_bounds by simp
  show "rnd (rnd (r * double_0_02)) = rnd (r * double_0_02)" by (rule rnd_idem)
qed

lemma ceiling_back:
  assumes "0 \<le> p" "p \<le> 1 / 32"
  shows "rnd (rnd (config_opacity + p) - p) \<le> config_opacity"
proof -
  have d: "config_opacity = of_int (2 ^ 52) * 2 powi (- 1 - 52)" by (simp add: config_opacity_def)
  have lt: "config_opacity + p < 2 powi (- 1 + 1)" using assms by (simp add: config_opacity_def)
  show ?thesis by (rule add_back_le [OF _ d _ _ _ assms(1) lt]) simp_all
qed

lemma floor_back:
  assumes "0 \<le> p" "p \<le> 1 / 32"
  shows "double_0_1 \<le> rnd (rnd (double_0_1 - p) + p)"
proof -
  have d: "double_0_1 = of_int 7205759403792794 * 2 powi (- 4 - 52)"
    by (simp add: double_0_1_value)
  have ge: "2 powi (- 4) \<le> double_0_1 - p" using assms double_0_1_bounds(1) by simp
  show ?thesis by (rule sub_back_ge [OF _ d _ _ _ assms(1) ge]) simp_all
qed

lemma update_opacity: "opacity (update c p) = rnd (opacity p + rnd (pulse p * pulseDir p))"
  by (simp add: update_def Let_def)

lemma update_pulse: "pulse (update c p) = pulse p"
  by (simp add: update_def Let_def)

lemma update_pulseDir:
  "pulseDir (update c p) =
     (if opacity (update c p) \<ge> config_opacity \<or> opacity (update c p) \<le> double_0_1
      then rnd (pulseDir p * (- 1)) else pulseDir p)"
  by (simp add: update_def Let_def)

lemma opacity_ok_step:
  assumes p: "rnd p = p" "0 \<le> p" "p \<le> 1 / 32" and ok: "opacity_ok b d p"
  shows "opacity_ok (rnd (b + rnd (p * d)))
           (if rnd (b + rnd (p * d)) \<ge> config_opacity \<or> rnd (b + rnd (p * d)) \<le> double_0_1
            then rnd (d * (- 1)) else d) p"
proof -
  note L = double_0_1_bounds
  have H: "rnd config_opacity = config_opacity" by (simp add: config_opacity_def)
  have LH: "double_0_1 \<le> config_opacity" using L(2) by (simp add: config_opacity_def)
  from ok have d: "d = 1 \<or> d = - 1" by (simp add: opacity_ok_def)
  from ok consider (inside) "double_0_1 \<le> b" "b \<le> config_opacity"
    | (above) "config_opacity < b" "b \<le> rnd (config_opacity + p)" "d = - 1"
    | (below) "b < double_0_1" "rnd (double_0_1 - p) \<le> b" "d = 1"
    unfolding opacity_ok_def by blast
  then show ?thesis
  proof cases
    case inside
    from d show ?thesis
    proof
      assume d1: "d = 1"
      have "rnd double_0_1 \<le> rnd (b + p)" using inside(1) p(2) by (intro rnd_mono) simp
      moreover have "rnd (b + p) \<le> rnd (config_opacity + p)" using inside(2) by (intro rnd_mono) simp
      ultimately show ?thesis unfolding opacity_ok_def d1 using p(1) L(3) by auto
    next
      assume d1: "d = - 1"
      have "rnd (b - p) \<le> rnd config_opacity" using inside(2) p(2) by (intro rnd_mono) simp
      moreover have "rnd (double_0_1 - p) \<le> rnd (b - p)" using inside(1) by (intro rnd_mono) simp
      ultimately show ?thesis unfolding opacity_ok_def d1 using p(1) H by (auto simp: rnd_minus)
    qed
  next
    case above
    have "rnd (b - p) \<le> rnd (rnd (config_opacity + p) - p)" using above(2) by (intro rnd_mono) simp
    then have le: "rnd (b - p) \<le> config_opacity" using ceiling_back [OF p(2,3)] by simp
    have "double_0_1 \<le> b - p" using above(1) p(3) L(2) by (simp add: config_opacity_def)
    then have "rnd double_0_1 \<le> rnd (b - p)" by (rule rnd_mono)
    with le show ?thesis unfolding opacity_ok_def above(3) using p(1) L(3) by (auto simp: rnd_minus)
  next
    case below
    have "rnd (rnd (double_0_1 - p) + p) \<le> rnd (b + p)" using below(2) by (intro rnd_mono) simp
    then have ge: "double_0_1 \<le> rnd (b + p)" using floor_back [OF p(2,3)] by simp
    have "b + p \<le> config_opacity" using below(1) p(3) L(2) by (simp add: config_opacity_def)
    then have "rnd (b + p) \<le> rnd config_opacity" by (rule rnd_mono)
    with ge show ?thesis unfolding opacity_ok_def below(3) using p(1) H by auto
  qed
qed

lemma opacity_ok_steps:
  assumes p: "rnd (pulse q) = pulse q" "0 \<le> pulse q" "pulse q \<le> 1 / 32"
    and ok: "opacity_ok (opacity q) (pulseDir q) (pulse q)"
  shows "opacity_ok (opacity ((update c ^^ n) q)) (pulseDir ((update c ^^ n) q)) (pulse q) \<and>
         pulse ((update c ^^ n) q) = pulse q"
proof (induction n)
  case 0
  show ?case using ok by simp
next
  case (Suc n)
  then show ?case
    using opacity_ok_step [OF p, of "opacity ((update c ^^ n) q)" "pulseDir ((update c ^^ n) q)"]
    by (simp add: update_pulse update_opacity update_pulseDir)
qed

lemma opacity_ok_bound:
  assumes "0 \<le> p" "opacity_ok b d p"
  shows "rnd (double_0_1 - p) \<le> b \<and> b \<le> rnd (config_opacity + p)"
proof -
  have "rnd (double_0_1 - p) \<le> rnd double_0_1" using assms(1) by (intro rnd_mono) simp
  then have lo: "rnd (double_0_1 - p) \<le> double_0_1" by (simp add: double_0_1_bounds)
  have "rnd config_opacity \<le> rnd (config_opacity + p)" using assms(1) by (intro rnd_mono) simp
  then have hi: "config_opacity \<le> rnd (config_opacity + p)" by (simp add: config_opacity_def)
  have "double_0_1 \<le> config_opacity" using double_0_1_bounds(2) by (simp add: config_opacity_def)
  with lo hi assms(2) show ?thesis unfolding opacity_ok_def by auto
qed

text \<open>The direction of a particle is \<open>1\<close> or \<open>-1\<close> at every frame.\<close>

lemma pulseDir_steps:
  assumes "pulseDir q = 1 \<or> pulseDir q = - 1"
  shows "pulseDir ((update c ^^ n) q) = 1 \<or> pulseDir ((update c ^^ n) q) = - 1"
proof (induction n)
  case 0
  show ?case using assms by simp
next
  case (Suc n)
  then show ?case by (auto simp: update_pulseDir rnd_minus)
qed

text \<open>
  \<^bold>\<open>C4, as amended.\<close> A created particle has opacity at least the double \<open>0.1\<close>. If it is created
  with opacity at most \<open>config.opacity\<close>, then after any number of updates its opacity is
  within \<open>[fl (0.1 - pulse), fl (config.opacity + pulse)]\<close>, where \<open>fl\<close> rounds to the nearest
  double. An update reverses \<open>pulseDir\<close> exactly when the updated opacity is at or above
  \<open>config.opacity\<close> or at or below \<open>0.1\<close>.
\<close>

theorem opacity_overshoot_bounded:
  assumes r: "valid_rand r" and p: "p = construct w h x y r"
  shows "double_0_1 \<le> opacity p \<and>
         (opacity p \<le> config_opacity \<longrightarrow>
            rnd (double_0_1 - pulse p) \<le> opacity ((update c ^^ n) p) \<and>
            opacity ((update c ^^ n) p) \<le> rnd (config_opacity + pulse p)) \<and>
         pulseDir ((update c ^^ Suc n) p) =
           (if opacity ((update c ^^ Suc n) p) \<ge> config_opacity \<or>
               opacity ((update c ^^ Suc n) p) \<le> double_0_1
            then - pulseDir ((update c ^^ n) p) else pulseDir ((update c ^^ n) p))"
proof -
  have dr: "unit_draw (r_opacity r)" "unit_draw (r_pulse r)" using r by (simp_all add: valid_rand_def)
  have pl: "pulse p = rnd (r_pulse r * double_0_02)" and dir: "pulseDir p = 1"
    and op: "opacity p = rnd (rnd (r_opacity r * config_opacity) + double_0_1)"
    by (simp_all add: p construct_def)
  have pulse: "rnd (pulse p) = pulse p" "0 \<le> pulse p" "pulse p \<le> 1 / 32"
    using pulse_draw [OF dr(2)] by (simp_all add: pl)
  have "0 \<le> r_opacity r * config_opacity"
    using dr(1) by (simp add: unit_draw_def config_opacity_def)
  then have "0 \<le> rnd (r_opacity r * config_opacity)" by (rule rnd_nonneg)
  then have "rnd double_0_1 \<le> rnd (rnd (r_opacity r * config_opacity) + double_0_1)"
    by (intro rnd_mono) simp
  then have floor: "double_0_1 \<le> opacity p" by (simp add: op double_0_1_bounds)
  have bounds: "rnd (double_0_1 - pulse p) \<le> opacity ((update c ^^ n) p) \<and>
        opacity ((update c ^^ n) p) \<le> rnd (config_opacity + pulse p)"
    if le: "opacity p \<le> config_opacity"
  proof -
    have "opacity_ok (opacity p) (pulseDir p) (pulse p)"
      using floor le by (simp add: opacity_ok_def dir)
    from opacity_ok_steps [OF pulse this, where c = c and n = n] opacity_ok_bound [OF pulse(2)]
    show ?thesis by blast
  qed
  have "pulseDir ((update c ^^ n) p) = 1 \<or> pulseDir ((update c ^^ n) p) = - 1"
    by (rule pulseDir_steps) (simp add: dir)
  then have flip: "rnd (- pulseDir ((update c ^^ n) p)) = - pulseDir ((update c ^^ n) p)"
    by (auto simp: rnd_minus)
  have "pulseDir ((update c ^^ Suc n) p) =
           (if opacity ((update c ^^ Suc n) p) \<ge> config_opacity \<or>
               opacity ((update c ^^ Suc n) p) \<le> double_0_1
            then - pulseDir ((update c ^^ n) p) else pulseDir ((update c ^^ n) p))"
    using update_pulseDir [of c "(update c ^^ n) p"] by (simp add: flip)
  with floor bounds show ?thesis by blast
qed

lemma rand1_opacity:
  "63 / 128 \<le> opacity (construct 800 600 None None rand1)"
  "opacity (construct 800 600 None None rand1) \<le> config_opacity"
  "3 / 256 \<le> pulse (construct 800 600 None None rand1)"
  "rnd (pulse (construct 800 600 None None rand1)) = pulse (construct 800 600 None None rand1)"
  "pulseDir (construct 800 600 None None rand1) = 1"
proof -
  have a: "rnd (51 / 128) = 51 / 128" "rnd (63 / 128) = 63 / 128" "rnd (3 / 256) = 3 / 256"
    using rnd_frac [of 51 7] rnd_frac [of 63 7] rnd_frac [of 3 8] by simp_all
  have op: "opacity (construct 800 600 None None rand1) = rnd (51 / 128 + double_0_1)"
    and pl: "pulse (construct 800 600 None None rand1) = rnd (3 / 4 * double_0_02)"
    by (simp_all add: construct_def rand1_def config_opacity_def a)
  have "rnd (63 / 128) \<le> rnd (51 / 128 + double_0_1)"
    using double_0_1_bounds(1) by (intro rnd_mono) simp
  then show "63 / 128 \<le> opacity (construct 800 600 None None rand1)" by (simp add: op a)
  have "rnd (51 / 128 + double_0_1) \<le> rnd (1 / 2)"
    using double_0_1_bounds(2) by (intro rnd_mono) simp
  then show "opacity (construct 800 600 None None rand1) \<le> config_opacity"
    by (simp add: op config_opacity_def)
  have "rnd (3 / 256) \<le> rnd (3 / 4 * double_0_02)"
    using double_0_02_bounds(1) by (intro rnd_mono) simp
  then show "3 / 256 \<le> pulse (construct 800 600 None None rand1)" by (simp add: pl a)
  show "rnd (pulse (construct 800 600 None None rand1)) = pulse (construct 800 600 None None rand1)"
    by (simp add: pl rnd_idem)
  show "pulseDir (construct 800 600 None None rand1) = 1" by (simp add: construct_def)
qed

theorem opacity_overshoot_bounded_witness:
  "double_0_1 \<le> opacity (construct 800 600 None None rand1) \<and>
   opacity (construct 800 600 None None rand1) \<le> config_opacity \<and>
   opacity ((update canvas0 ^^ 2) (construct 800 600 None None rand1)) \<le>
     rnd (config_opacity + pulse (construct 800 600 None None rand1))"
proof -
  have v: "valid_rand rand1" by (simp add: valid_rand_def unit_draw_def rand1_def)
  show ?thesis
    using opacity_overshoot_bounded [OF v refl, where w = 800 and h = 600 and x = None and y = None
        and c = canvas0 and n = 2] rand1_opacity(2)
    by simp
qed

text \<open>
  \<^bold>\<open>C4.\<close> The opacity does not stay below the ceiling \<open>config.opacity\<close>. The constructor draws
  it from \<open>[0.1, 0.1 + config.opacity]\<close>: the first particle below is created above the
  ceiling. \<open>update\<close> adds the step before it tests the bounds: the second particle is
  created below the ceiling and is above it after one update.
\<close>

theorem opacity_exceeds_ceiling:
  "valid_rand rand0 \<and> config_opacity < opacity (construct 800 600 None None rand0) \<and>
   valid_rand rand1 \<and> opacity (construct 800 600 None None rand1) \<le> config_opacity \<and>
   config_opacity < opacity (update canvas0 (construct 800 600 None None rand1))"
proof -
  have a: "rnd (15 / 32) = 15 / 32" "rnd (9 / 16) = 9 / 16" "rnd (129 / 256) = 129 / 256"
    using rnd_frac [of 15 5] rnd_frac [of 9 4] rnd_frac [of 129 8] by simp_all
  have v: "valid_rand rand0" "valid_rand rand1"
    by (simp_all add: valid_rand_def unit_draw_def rand0_def rand1_def)
  have "rnd (9 / 16) \<le> rnd (15 / 32 + double_0_1)"
    using double_0_1_bounds(1) by (intro rnd_mono) simp
  then have one: "config_opacity < opacity (construct 800 600 None None rand0)"
    by (simp add: construct_def rand0_def config_opacity_def a)
  let ?p = "construct 800 600 None None rand1"
  have "rnd (129 / 256) \<le> rnd (opacity ?p + pulse ?p)"
    using rand1_opacity(1,3) by (intro rnd_mono) simp
  then have two: "config_opacity < opacity (update canvas0 ?p)"
    by (simp add: update_opacity rand1_opacity(4,5) a config_opacity_def)
  from v one two rand1_opacity(2) show ?thesis by simp
qed

subsection \<open>Connecting lines\<close>







text \<open>The lines of a frame are those of \<open>drawConnections\<close> on the updated particles.\<close>

lemma animate_lines:
  assumes "animate s = Inr (s', cmds)"
  shows "(Line x1 y1 x2 y2 a \<in> set cmds) =
         (Line x1 y1 x2 y2 a \<in> set (drawConnections (particlesArray s')))"
  using assms by (auto simp: animate_def Let_def draw_def split: option.splits)








section \<open>The i18n module: proofs\<close>

subsection \<open>The cache of \<open>loadLanguage\<close>\<close>











lemma loadLanguage_failure:
  assumes "\<not> truthy (plain_get (translations' s) lang)"
    and "those (map (fetch_json h) (resource_urls (getRootPath (pathname h)) lang)) = None"
  shows "loadLanguage h lang s =
     (if truthy (plain_get (translations' s) (currentLang s))
      then plain_get (translations' s) (currentLang s) else JObj [],
      s \<lparr> effects := effects s @ map Fetch (resource_urls (getRootPath (pathname h)) lang) @
                     [ConsoleError] \<rparr>)"
  using assms by (simp add: loadLanguage_def Let_def)





lemma fetches_none_simps [simp]:
  "fetches_none lang []"
  "fetches_none lang (ConsoleLog x # es) = fetches_none lang es"
  "fetches_none lang (ConsoleError # es) = fetches_none lang es"
  "fetches_none lang (UpdatePageTranslations x # es) = fetches_none lang es"
  "fetches_none lang (LanguageChanged x # es) = fetches_none lang es"
  "fetches_none lang (BodyClass x # es) = fetches_none lang es"
  by (simp_all add: fetches_none_def)












subsection \<open>A failed load\<close>

text \<open>
  \<^bold>\<open>C1.\<close> The state has \<open>zh\<close> as current language and its bundle cached; every fetch fails.
  \<open>loadLanguage(en)\<close> called directly resolves with the cached \<open>zh\<close> bundle. Called by
  \<open>setLanguage(en)\<close> it resolves with the empty object: \<open>setLanguage\<close> has already
  assigned \<open>currentLang\<close>, so the handler looks up the bundle of \<open>en\<close>.
\<close>

theorem setLanguage_failed_load_empty:
  "plain_get (translations' state_zh) (currentLang state_zh) = bundle_zh \<and>
   fst (loadLanguage host_down ''en'' state_zh) = bundle_zh \<and>
   fst (loadLanguage host_down ''en'' (setLanguage_begin host_down ''en'' state_zh)) = JObj [] \<and>
   bundle_zh \<noteq> JObj []"
  by (simp add: loadLanguage_def setLanguage_begin_def setItem_def state_zh_def host_down_def
      plain_get_def proto_get_def object_prototype_names_def truthy_def bundle_zh_def
      resource_urls_def resources_def Let_def)

subsection \<open>\<open>setLanguage\<close> with the current language\<close>

text \<open>
  \<^bold>\<open>C8.\<close> \<open>setLanguage\<close> called with the current language returns the state as it is: the
  current language, the cache, the stored preference and the effects (no fetch, no run of
  \<open>updatePageTranslations\<close>, no event) are unchanged.
\<close>

theorem setLanguage_current_noop: "setLanguage h (currentLang s) s = s"
  by (simp add: setLanguage_def)

theorem setLanguage_current_noop_witness:
  "setLanguage host_up ''zh'' state_zh = state_zh"
  using setLanguage_current_noop [of host_up state_zh] by (simp add: state_zh_def)

subsection \<open>The language chosen by \<open>init\<close>\<close>

text \<open>Where the access to \<open>localStorage\<close> throws, \<open>init\<close> throws before it sets anything.\<close>

lemma init_throws: "localStorage_throws h \<Longrightarrow> init h s = Inl SecurityError"
  by (simp add: init_def)

text \<open>
  \<^bold>\<open>C9.\<close> A stored code is not always taken: with the empty string stored, \<open>init\<close> takes the
  language of the browser, here \<open>en\<close>.
\<close>

theorem init_empty_stored:
  "stored (initial (Some [])) = Some [] \<and>
   init host_down (initial (Some [])) =
     Inr \<lparr> currentLang = ''en'', translations' = [], stored = Some [],
           effects = map Fetch (resource_urls [] ''en'') @
             [ConsoleError, UpdatePageTranslations ''en'', BodyClass ''i18n-loaded''] \<rparr>"
  by (simp add: init_def initial_def host_down_def loadLanguage_def plain_get_def proto_get_def
      object_prototype_names_def truthy_def resource_urls_def resources_def Let_def getRootPath_def
      startsWith_def)

text \<open>
  \<^bold>\<open>C9, as amended.\<close> Where \<open>localStorage\<close> can be read, \<open>init\<close> returns, and the current language is the
  stored code if a nonempty one is stored; if none or the empty string is stored, it is
  \<open>zh\<close> when the language of the browser starts with \<open>zh\<close> and \<open>en\<close> otherwise.
\<close>

theorem init_language:
  assumes "\<not> localStorage_throws h"
  shows "\<exists>s'. init h s = Inr s' \<and>
           (\<forall>v. stored s = Some v \<and> v \<noteq> [] \<longrightarrow> currentLang s' = v) \<and>
           (stored s = None \<or> stored s = Some [] \<longrightarrow>
              currentLang s' = (if startsWith (navigator_language h) ''zh'' then ''zh'' else ''en''))"
proof -
  have cur: "currentLang (snd (loadLanguage h' l s0)) = currentLang s0" for h' l s0
    by (simp add: loadLanguage_def Let_def split: option.splits)
  show ?thesis using assms by (auto simp: init_def Let_def cur)
qed

theorem init_language_witness:
  "\<exists>s'. init host_up (initial (Some ''zh'')) = Inr s' \<and> currentLang s' = ''zh''"
proof -
  have a: "\<not> localStorage_throws host_up" by (simp add: host_up_def)
  show ?thesis using init_language [OF a, of "initial (Some ''zh'')"] by (simp add: initial_def)
qed

subsection \<open>Resolving a key\<close>

lemma str_split_nonempty: "str_split s c \<noteq> []"
  by (induction s) (auto split: list.splits)

lemma walk_own_path: "own_path v ks = Some r \<Longrightarrow> walk host v ks = r"
proof (induction ks arbitrary: v)
  case Nil
  then show ?case by simp
next
  case (Cons k ks)
  then obtain kvs v' where v: "v = JObj kvs" "map_of kvs k = Some v'" "own_path v' ks = Some r"
    by (cases v) (auto split: option.splits)
  with Cons.IH [of v'] show ?case
    by (simp add: truthy_def typeof_object_def plain_get_def)
qed

lemma walk_no_path:
  "set ks \<inter> set object_prototype_names = {} \<Longrightarrow> own_path v ks = None \<Longrightarrow>
   walk host v ks = JUndefined"
proof (induction ks arbitrary: v)
  case Nil
  then show ?case by simp
next
  case (Cons k ks)
  then have k: "k \<notin> set object_prototype_names" and ks: "set ks \<inter> set object_prototype_names = {}"
    by auto
  show ?case
  proof (cases v)
    case (JObj kvs)
    show ?thesis
    proof (cases "map_of kvs k")
      case None
      with JObj k show ?thesis by simp
    next
      case (Some v')
      with JObj Cons.prems(2) have "own_path v' ks = None" by simp
      from Cons.IH [OF ks this] JObj Some show ?thesis by (simp add: plain_get_def)
    qed
  qed (use k in \<open>simp_all add: truthy_def typeof_object_def\<close>)
qed

lemma getNestedValue_own_path:
  "ks \<noteq> [] \<Longrightarrow> own_path v ks = Some r \<Longrightarrow> getNestedValue host v ks = r"
  using walk_own_path [of v ks r host]
  by (cases v; cases ks) (simp_all add: getNestedValue_def truthy_def typeof_object_def)

lemma getNestedValue_no_path:
  "set ks \<inter> set object_prototype_names = {} \<Longrightarrow> own_path v ks = None \<Longrightarrow>
   getNestedValue host v ks = JUndefined"
  using walk_no_path [of ks v host] by (simp add: getNestedValue_def)

lemma own_path_truthy: "ks \<noteq> [] \<Longrightarrow> own_path v ks = Some r \<Longrightarrow> truthy v"
  by (cases v; cases ks) (simp_all add: truthy_def)

text \<open>
  For a loaded bundle \<open>b\<close> and a key none of whose segments is a property name of
  \<open>Object.prototype\<close>: \<open>t\<close> returns the value of the page section where the path is
  present there, else the value of \<open>common\<close> where it is present there, else the key.
  The first case holds of every key.
\<close>

lemma t_resolves_plain_keys:
  assumes data: "plain_get (translations' s) (currentLang s) = JObj b"
  shows "(own_path (plain_get b page) (str_split key (CHR ''.'')) = Some v \<and> v \<noteq> JUndefined \<longrightarrow>
            t h s key page = v) \<and>
         (set (str_split key (CHR ''.'')) \<inter> set object_prototype_names = {} \<and>
          own_path (plain_get b page) (str_split key (CHR ''.'')) = None \<and>
          own_path (plain_get b ''common'') (str_split key (CHR ''.'')) = Some v \<and> v \<noteq> JUndefined \<longrightarrow>
            t h s key page = v) \<and>
         (set (str_split key (CHR ''.'')) \<inter> set object_prototype_names = {} \<and>
          own_path (plain_get b page) (str_split key (CHR ''.'')) = None \<and>
          own_path (plain_get b ''common'') (str_split key (CHR ''.'')) = None \<longrightarrow>
            t h s key page = JStr key)"
proof -
  let ?ks = "str_split key (CHR ''.'')"
  have ne: "?ks \<noteq> []" by (rule str_split_nonempty)
  have tr: "truthy (JObj b)" by (simp add: truthy_def)
  have one: "t h s key page = v" if "own_path (plain_get b page) ?ks = Some v" "v \<noteq> JUndefined"
    using that getNestedValue_own_path [OF ne that(1), of "host_get h"] data tr
    by (simp add: t_def Let_def)
  have two: "t h s key page = v"
    if "set ?ks \<inter> set object_prototype_names = {}" "own_path (plain_get b page) ?ks = None"
      "own_path (plain_get b ''common'') ?ks = Some v" "v \<noteq> JUndefined"
    using that getNestedValue_no_path [OF that(1,2), of "host_get h"]
      getNestedValue_own_path [OF ne that(3), of "host_get h"] own_path_truthy [OF ne that(3)] data tr
    by (simp add: t_def Let_def)
  have three: "t h s key page = JStr key"
    if "set ?ks \<inter> set object_prototype_names = {}" "own_path (plain_get b page) ?ks = None"
      "own_path (plain_get b ''common'') ?ks = None"
    using that getNestedValue_no_path [OF that(1,2), of "host_get h"]
      getNestedValue_no_path [OF that(1,3), of "host_get h"] data tr
    by (simp add: t_def Let_def)
  from one two three show ?thesis by blast
qed

text \<open>
  \<^bold>\<open>C2.\<close> A key that is absent from the page section and from \<open>common\<close> does not always come
  back unchanged: \<open>getNestedValue\<close> tests \<open>keys[i] in value\<close>, which also holds of
  inherited properties. For the key \<open>constructor\<close>, present in neither section, \<open>t\<close>
  returns the built-in function and not the key.
\<close>

theorem t_inherited_key:
  "t host_down state_zh ''constructor'' ''home'' = JFunction ''constructor''"
  by (simp add: t_def state_zh_def bundle_zh_def plain_get_def truthy_def getNestedValue_def
      typeof_object_def proto_get_def object_prototype_names_def Let_def)

end
